theory Spec2Isabelle
  imports Complex_Main "HOL-Library.Sublist"
begin

section \<open>Values, errors and tables\<close>

text \<open>
  The script \<^verbatim>\<open>area_per_ppp_sector.py\<close> computes with numpy's 64-bit floats. A value is
  either finite, one of the two infinities, or not-a-number. Finite values are modelled by
  real numbers: the rounding of a quotient, its overflow and the sign of zero are not
  represented; the special values and the way they propagate through a division are.
\<close>

datatype float64 = Finite real | PosInf | NegInf | NaN

text \<open>\<^verbatim>\<open>numpy.isnan\<close>.\<close>

definition isnan :: "float64 \<Rightarrow> bool" where
  "isnan x = (x = NaN)"

text \<open>
  Division of two numpy scalars, \<^verbatim>\<open>a / b\<close>. It never raises: a zero divisor gives an
  infinity (or not-a-number for \<^verbatim>\<open>0 / 0\<close>), and a not-a-number operand gives not-a-number.
\<close>

fun fdiv :: "float64 \<Rightarrow> float64 \<Rightarrow> float64" where
  "fdiv NaN _ = NaN"
| "fdiv _ NaN = NaN"
| "fdiv (Finite a) (Finite b) =
     (if b = 0 then (if a = 0 then NaN else if 0 < a then PosInf else NegInf)
      else Finite (a / b))"
| "fdiv (Finite a) PosInf = Finite 0"
| "fdiv (Finite a) NegInf = Finite 0"
| "fdiv PosInf (Finite b) = (if b < 0 then NegInf else PosInf)"
| "fdiv NegInf (Finite b) = (if b < 0 then PosInf else NegInf)"
| "fdiv _ _ = NaN"

text \<open>The order of the floats, \<^verbatim>\<open>a <= b\<close>: false as soon as one side is not-a-number.\<close>

fun fle :: "float64 \<Rightarrow> float64 \<Rightarrow> bool" where
  "fle NaN _ = False"
| "fle _ NaN = False"
| "fle NegInf _ = True"
| "fle _ PosInf = True"
| "fle (Finite a) (Finite b) = (a \<le> b)"
| "fle _ _ = False"

text \<open>
  The exceptions that the script or the libraries it calls can raise. \<open>RequestError\<close>
  stands for whatever the request to the remote service raises at line 57.
\<close>

datatype error = KeyError | IndexError | NameError | ValueError | LinAlgError | RequestError

text \<open>
  A pandas \<^verbatim>\<open>Series\<close>: labels with their values, in index order. \<^verbatim>\<open>series[label]\<close>
  raises \<^verbatim>\<open>KeyError\<close> when the label is not in the index, is the value when the label
  occurs once, and is the sub-series of all values under the label when it occurs more
  than once.
\<close>

type_synonym series = "(string \<times> float64) list"

datatype item = Scalar float64 | Subseries "float64 list"

definition series_get :: "series \<Rightarrow> string \<Rightarrow> error + item" where
  "series_get s label =
     (case map snd (filter (\<lambda>entry. fst entry = label) s) of
        [] \<Rightarrow> Inl KeyError
      | [v] \<Rightarrow> Inr (Scalar v)
      | vs \<Rightarrow> Inr (Subseries vs))"

text \<open>
  The value at the first place of a label in a series. The theorems use it to name an
  entry of a column; for a label that occurs once it is the value of \<^verbatim>\<open>series[label]\<close>.
\<close>

definition first_entry :: "series \<Rightarrow> string \<Rightarrow> error + float64" where
  "first_entry s label = (case map_of s label of None \<Rightarrow> Inl KeyError | Some v \<Rightarrow> Inr v)"

text \<open>
  A pandas \<^verbatim>\<open>DataFrame\<close> held by columns: the row labels and, for every column name, the
  values in row order. \<^verbatim>\<open>frame[name]\<close> is the column as a series over the frame's index
  and raises \<^verbatim>\<open>KeyError\<close> for an unknown column.
\<close>

record dataframe =
  index :: "string list"
  columns :: "(string \<times> float64 list) list"

definition getitem :: "dataframe \<Rightarrow> string \<Rightarrow> error + series" where
  "getitem df name =
     (case map_of (columns df) name of
        None \<Rightarrow> Inl KeyError
      | Some vs \<Rightarrow> Inr (zip (index df) vs))"

text \<open>
  \<^verbatim>\<open>frame[name] = values\<close> for values already in the frame's row order: an existing
  column is replaced in place, a new one is appended.
\<close>

fun setcol :: "(string \<times> float64 list) list \<Rightarrow> string \<Rightarrow> float64 list \<Rightarrow> (string \<times> float64 list) list" where
  "setcol [] name vs = [(name, vs)]"
| "setcol ((n, ws) # cols) name vs =
     (if n = name then (n, vs) # cols else (n, ws) # setcol cols name vs)"

definition setitem :: "dataframe \<Rightarrow> string \<Rightarrow> float64 list \<Rightarrow> dataframe" where
  "setitem df name vs = df\<lparr>columns := setcol (columns df) name vs\<rparr>"

section \<open>The input-output table and its sectors\<close>

text \<open>
  \<^verbatim>\<open>all_matrix\<close> is the ICIO table read from the CSV file, with the column
  \<^verbatim>\<open>"Unnamed: 0"\<close> made its row index: the remaining column labels in file order, and the
  rows, each with its label.
\<close>

record io_table =
  labels :: "string list"
  table_rows :: "(string \<times> float64 list) list"

text \<open>
  \<^verbatim>\<open>all_matrix.loc["OUT"]\<close> raises \<^verbatim>\<open>KeyError\<close> when no row has that label. With one
  such row it is that row as a series over the column labels. With several it is the
  frame of those rows.
\<close>

datatype selection = OneRow series | SeveralRows "string list" "float64 list list"

definition loc :: "io_table \<Rightarrow> string \<Rightarrow> error + selection" where
  "loc t label =
     (case map snd (filter (\<lambda>row. fst row = label) (table_rows t)) of
        [] \<Rightarrow> Inl KeyError
      | [vs] \<Rightarrow> Inr (OneRow (zip (labels t) vs))
      | vss \<Rightarrow> Inr (SeveralRows (labels t) vss))"

text \<open>
  \<^verbatim>\<open>all_output[key]\<close>. On a series it is the lookup above. On a frame of several rows
  it selects a column: \<^verbatim>\<open>KeyError\<close> for an unknown label, and otherwise the values under
  that label, which are never a single number.
\<close>

fun selection_get :: "selection \<Rightarrow> string \<Rightarrow> error + item" where
  "selection_get (OneRow s) key = series_get s key"
| "selection_get (SeveralRows labs vss) key =
     (if key \<in> set labs
      then Inr (Subseries (concat (map (\<lambda>vs. map snd (filter (\<lambda>entry. fst entry = key) (zip labs vs))) vss)))
      else Inl KeyError)"

text \<open>\<^verbatim>\<open>s.startswith(p)\<close> and the slice \<^verbatim>\<open>sect[4:]\<close>.\<close>

definition startswith :: "string \<Rightarrow> string \<Rightarrow> bool" where
  "startswith s p = (take (length p) s = p)"

text \<open>
  Line 85: \<^verbatim>\<open>sectors = [sect[4:] for sect in all_matrix.columns if sect.startswith("AUS_")]\<close>.
\<close>

definition sectors :: "string list \<Rightarrow> string list" where
  "sectors cols = map (drop 4) (filter (\<lambda>sect. startswith sect ''AUS_'') cols)"

section \<open>The indicator harmonizer\<close>

text \<open>
  \<^verbatim>\<open>data.write()\<close> is the table of raw observations of one indicator: one column per
  series key (frequency, series code, reference area), one row per time period, oldest
  first; a period without an observation holds not-a-number.
\<close>

type_synonym 'k observations = "('k \<times> float64 list) list"

definition fmax :: "float64 \<Rightarrow> float64 \<Rightarrow> float64" where
  "fmax a b = (if fle a b then b else a)"

text \<open>
  \<^verbatim>\<open>.max(axis=0)\<close> reduces every column over its rows and skips not-a-number entries; a
  column with nothing else gives not-a-number.
\<close>

definition nanmax :: "float64 list \<Rightarrow> float64" where
  "nanmax obs =
     (case filter (\<lambda>x. \<not> isnan x) obs of
        [] \<Rightarrow> NaN
      | y # ys \<Rightarrow> foldl fmax y ys)"

definition frame_max :: "'k observations \<Rightarrow> ('k \<times> float64) list" where
  "frame_max raw = map (\<lambda>(key, obs). (key, nanmax obs)) raw"

text \<open>\<^verbatim>\<open>index.droplevel()\<close> removes the first level of a multi-level index.\<close>

definition droplevel :: "(('a \<times> 'b) \<times> 'v) list \<Rightarrow> ('b \<times> 'v) list" where
  "droplevel s = map (\<lambda>((a, b), v). (b, v)) s"

text \<open>
  Lines 61 and 62:
  \<^verbatim>\<open>sequence = data.write().max(axis=0)\<close>,
  \<^verbatim>\<open>sequence.index = sequence.index.droplevel().droplevel()\<close>.
\<close>

definition sequence :: "(string \<times> string \<times> string) observations \<Rightarrow> series" where
  "sequence raw = droplevel (droplevel (frame_max raw))"

text \<open>The indicators of lines 47 to 56: series code and description.\<close>

definition indicators :: "(string \<times> string) list" where
  "indicators =
    [(''AG_LND_AGRI_ZS'', ''Agricultural land (% of land area)''),
     (''AG_LND_FRST_K2'', ''Forest area (sq. km)''),
     (''EN_ATM_CO2E_PC'', ''CO2 emissions (metric tons per capita)''),
     (''NY_GDP_MKTP_CD'', ''GDP (current US$)''),
     (''NY_GNP_PCAP_CD'', ''GNI per capita, Atlas method (current US$)''),
     (''NY_GNP_PCAP_PP_CD'', ''GNI per capita, PPP (current international $)''),
     (''NY_GNP_ATLS_CD'', ''GNI, Atlas method (current US$)''),
     (''NY_GNP_MKTP_PP_CD'', ''GNI, PPP (current international $)''),
     (''AG_SRF_TOTL_K2'', ''Surface area (sq. km)'')]"

text \<open>
  \<^verbatim>\<open>alldata[description] = sequence\<close> for a series with an index of its own. pandas
  aligns the series to the frame's index: a label of the frame that the series lacks gets
  not-a-number, a label only the series has is dropped. A frame without rows takes the
  index of the series first. A series with a repeated label that is not already in the
  frame's order cannot be aligned and raises \<^verbatim>\<open>ValueError\<close>.
\<close>

definition reindex :: "series \<Rightarrow> string list \<Rightarrow> float64 list" where
  "reindex s idx = map (\<lambda>label. case map_of s label of None \<Rightarrow> NaN | Some v \<Rightarrow> v) idx"

definition ensure_valid_index :: "dataframe \<Rightarrow> series \<Rightarrow> dataframe" where
  "ensure_valid_index df s =
     (if index df = [] \<and> s \<noteq> []
      then \<lparr>index = map fst s,
            columns = map (\<lambda>(n, vs). (n, replicate (length s) NaN)) (columns df)\<rparr>
      else df)"

definition assign_series :: "dataframe \<Rightarrow> string \<Rightarrow> series \<Rightarrow> error + dataframe" where
  "assign_series df name s =
     (let df' = ensure_valid_index df s in
      if map fst s = index df' then Inr (setitem df' name (map snd s))
      else if \<not> distinct (map fst s) then Inl ValueError
      else Inr (setitem df' name (reindex s (index df'))))"

text \<open>
  Lines 57 to 61, \<^verbatim>\<open>unstats.get(...)\<close> followed by \<^verbatim>\<open>data.write()\<close>. \<^verbatim>\<open>fetch\<close> stands for
  the remote service: for a series code it fails or answers with the observations. An
  answer without a single series does not become a table: \<^verbatim>\<open>data.write()\<close> has nothing to
  put side by side, and the concatenation of no series raises \<^verbatim>\<open>ValueError\<close>.
\<close>

type_synonym service = "string \<Rightarrow> error + (string \<times> string \<times> string) observations"

definition data_write :: "service \<Rightarrow> string \<Rightarrow> error + (string \<times> string \<times> string) observations" where
  "data_write fetch name =
     (case fetch name of
        Inl e \<Rightarrow> Inl e
      | Inr raw \<Rightarrow> if raw = [] then Inl ValueError else Inr raw)"

text \<open>
  The loop of lines 47 to 66. \<^verbatim>\<open>alldata\<close> is unbound until the first series arrives: the
  assignment then raises \<^verbatim>\<open>NameError\<close> and the handler creates the frame from that
  series. An exception of lines 57 to 62 ends the run.
\<close>

fun collect ::
  "service \<Rightarrow> (string \<times> string) list \<Rightarrow> dataframe option \<Rightarrow> error + dataframe option" where
  "collect fetch [] alldata = Inr alldata"
| "collect fetch ((name, description) # rest) alldata =
     (case data_write fetch name of
        Inl e \<Rightarrow> Inl e
      | Inr raw \<Rightarrow>
          (let s = sequence raw in
           case alldata of
             None \<Rightarrow>
               collect fetch rest
                 (Some \<lparr>index = map fst s, columns = [(description, map snd s)]\<rparr>)
           | Some df \<Rightarrow>
               (case assign_series df description s of
                  Inl e \<Rightarrow> Inl e
                | Inr df' \<Rightarrow> collect fetch rest (Some df'))))"

text \<open>
  Division of two columns of one frame, which share their index: element by element.
\<close>

definition series_div :: "series \<Rightarrow> series \<Rightarrow> series" where
  "series_div a b = map (\<lambda>((label, x), (_, y)). (label, fdiv x y)) (zip a b)"

abbreviation GNI_Atlas :: string where
  "GNI_Atlas \<equiv> ''GNI per capita, Atlas method (current US$)''"

abbreviation GNI_PPP :: string where
  "GNI_PPP \<equiv> ''GNI per capita, PPP (current international $)''"

text \<open>Line 68.\<close>

definition add_ppp :: "dataframe \<Rightarrow> error + dataframe" where
  "add_ppp alldata =
     (case getitem alldata GNI_Atlas of
        Inl e \<Rightarrow> Inl e
      | Inr a \<Rightarrow>
          (case getitem alldata GNI_PPP of
             Inl e \<Rightarrow> Inl e
           | Inr b \<Rightarrow> Inr (setitem alldata ''PPP'' (map snd (series_div a b)))))"

text \<open>Lines 46 to 68 together.\<close>

definition harmonize :: "service \<Rightarrow> error + dataframe" where
  "harmonize fetch =
     (case collect fetch indicators None of
        Inl e \<Rightarrow> Inl e
      | Inr None \<Rightarrow> Inl NameError
      | Inr (Some alldata) \<Rightarrow> add_ppp alldata)"

text \<open>
  The entry of a column in the first row that carries the label; the theorems use it to
  name an entry of a frame. When the label occurs once in the index it is the value of
  \<^verbatim>\<open>frame[name][label]\<close>.
\<close>

definition frame_at :: "dataframe \<Rightarrow> string \<Rightarrow> string \<Rightarrow> error + float64" where
  "frame_at df name label =
     (case getitem df name of Inl e \<Rightarrow> Inl e | Inr s \<Rightarrow> first_entry s label)"

section \<open>The design matrix\<close>

text \<open>
  A two-dimensional numpy array: the number of columns and the rows. The shape keeps its
  second component when there is no row.
\<close>

record ndarray =
  ncols :: nat
  rows :: "float64 list list"

text \<open>
  The body of the \<^verbatim>\<open>try\<close> of lines 105 and 106,
  \<^verbatim>\<open>output_ppp[c, s] = all_output[country+"_"+sector] / alldata["PPP"][country]\<close>: the
  dividend is looked up first, then the column, then the divisor. Two numbers are divided
  and the quotient is stored. When a lookup gave more than one value, the quotient is a
  series and storing it in one cell of the array raises \<^verbatim>\<open>ValueError\<close>.
\<close>

definition cell_value :: "selection \<Rightarrow> dataframe \<Rightarrow> string \<Rightarrow> string \<Rightarrow> error + float64" where
  "cell_value all_output alldata country sector =
     (case selection_get all_output (country @ ''_'' @ sector) of
        Inl e \<Rightarrow> Inl e
      | Inr x \<Rightarrow>
          (case getitem alldata ''PPP'' of
             Inl e \<Rightarrow> Inl e
           | Inr ppp \<Rightarrow>
               (case series_get ppp country of
                  Inl e \<Rightarrow> Inl e
                | Inr y \<Rightarrow>
                    (case (x, y) of
                       (Scalar v, Scalar p) \<Rightarrow> Inr (fdiv v p)
                     | _ \<Rightarrow> Inl ValueError))))"

text \<open>
  Lines 104 to 110: the value stored in the cell and what is printed. The handler catches
  \<^verbatim>\<open>KeyError\<close> only; any other exception leaves the loops and ends the run.
\<close>

definition try_cell ::
  "selection \<Rightarrow> dataframe \<Rightarrow> string \<Rightarrow> string \<Rightarrow> error + (float64 \<times> string list)" where
  "try_cell all_output alldata country sector =
     (case cell_value all_output alldata country sector of
        Inr x \<Rightarrow> Inr (x, [])
      | Inl KeyError \<Rightarrow> Inr (NaN, [country @ ''_'' @ sector])
      | Inl e \<Rightarrow> Inl e)"

text \<open>
  The two ways a cell ends when no label is repeated, as one total function of a
  total-output row: the quotient and nothing printed, or not-a-number and the key printed
  (lemma \<open>try_cell_total\<close> below).
\<close>

definition cell_result :: "series \<Rightarrow> dataframe \<Rightarrow> string \<Rightarrow> string \<Rightarrow> float64 \<times> string list" where
  "cell_result all_output alldata country sector =
     (case cell_value (OneRow all_output) alldata country sector of
        Inr x \<Rightarrow> (x, [])
      | Inl e \<Rightarrow> (NaN, [country @ ''_'' @ sector]))"

text \<open>
  The inner loop (line 103) and the outer loop (line 102): the lines printed, and the
  cells or the exception that ended the loop. Line 101 creates an array of zeros of the
  final shape and the loops assign every one of its cells, so the rows are built cell by
  cell in the same order. What was printed before an exception stays printed.
\<close>

fun fill_row ::
  "selection \<Rightarrow> dataframe \<Rightarrow> string \<Rightarrow> string list \<Rightarrow> string list \<times> (error + float64 list)" where
  "fill_row all_output alldata country [] = ([], Inr [])"
| "fill_row all_output alldata country (sector # rest) =
     (case try_cell all_output alldata country sector of
        Inl e \<Rightarrow> ([], Inl e)
      | Inr (x, printed) \<Rightarrow>
          (case fill_row all_output alldata country rest of
             (msgs, Inl e) \<Rightarrow> (printed @ msgs, Inl e)
           | (msgs, Inr xs) \<Rightarrow> (printed @ msgs, Inr (x # xs))))"

fun fill_rows ::
  "selection \<Rightarrow> dataframe \<Rightarrow> string list \<Rightarrow> string list
     \<Rightarrow> string list \<times> (error + float64 list list)" where
  "fill_rows all_output alldata [] sects = ([], Inr [])"
| "fill_rows all_output alldata (country # rest) sects =
     (case fill_row all_output alldata country sects of
        (printed, Inl e) \<Rightarrow> (printed, Inl e)
      | (printed, Inr r) \<Rightarrow>
          (case fill_rows all_output alldata rest sects of
             (msgs, Inl e) \<Rightarrow> (printed @ msgs, Inl e)
           | (msgs, Inr rs) \<Rightarrow> (printed @ msgs, Inr (r # rs))))"

text \<open>
  Lines 84 to 110: the diagnostics printed while \<^verbatim>\<open>output_ppp\<close> is filled, and the array
  before the rows with missing data are removed, or the exception that ended the run. The
  countries are the index of the harmonized table (line 86). Line 87 reads a column that
  the harmonizer always creates and its value is not used afterwards; it is left out.
\<close>

definition design_matrix :: "dataframe \<Rightarrow> io_table \<Rightarrow> string list \<times> (error + ndarray)" where
  "design_matrix alldata all_matrix =
     (case loc all_matrix ''OUT'' of
        Inl e \<Rightarrow> ([], Inl e)
      | Inr all_output \<Rightarrow>
          (let sects = sectors (labels all_matrix);
               countries = index alldata
           in case fill_rows all_output alldata countries sects of
                (msgs, Inl e) \<Rightarrow> (msgs, Inl e)
              | (msgs, Inr rs) \<Rightarrow> (msgs, Inr \<lparr>ncols = length sects, rows = rs\<rparr>)))"

text \<open>
  Line 113: \<^verbatim>\<open>output_ppp[~numpy.isnan(output_ppp).any(1)]\<close>. \<^verbatim>\<open>any(1)\<close> is true for a row
  with a not-a-number cell; indexing with the negated mask keeps the other rows, in order.
\<close>

definition any_nan :: "ndarray \<Rightarrow> bool list" where
  "any_nan m = map (\<lambda>r. list_ex isnan r) (rows m)"

definition mask_select :: "ndarray \<Rightarrow> bool list \<Rightarrow> ndarray" where
  "mask_select m keep = m\<lparr>rows := map fst (filter snd (zip (rows m) keep))\<rparr>"

definition drop_missing :: "ndarray \<Rightarrow> ndarray" where
  "drop_missing m = mask_select m (map Not (any_nan m))"

section \<open>The coefficient estimator\<close>

text \<open>
  \<^verbatim>\<open>scipy.optimize.lsq_linear\<close> is a library routine; the script only calls it. It is a
  parameter of the model: given the predictors, the target and the bounds it returns the
  solution vector \<^verbatim>\<open>x\<close> or raises.
\<close>

type_synonym solver = "ndarray \<Rightarrow> float64 list \<Rightarrow> float64 \<times> float64 \<Rightarrow> error + float64 list"

text \<open>
  The slices \<^verbatim>\<open>output_ppp[:,:-1]\<close> and \<^verbatim>\<open>output_ppp[:,-1]\<close>. The first is empty for an
  array without columns; the second raises \<^verbatim>\<open>IndexError\<close> there.
\<close>

definition all_but_last_column :: "ndarray \<Rightarrow> ndarray" where
  "all_but_last_column m = \<lparr>ncols = ncols m - 1, rows = map butlast (rows m)\<rparr>"

definition last_column :: "ndarray \<Rightarrow> error + float64 list" where
  "last_column m = (if ncols m = 0 then Inl IndexError else Inr (map last (rows m)))"

text \<open>
  Line 115. The arguments are evaluated before the call, from left to right. The comment
  above line 101 describes a fit of the whole matrix to the country areas; the call as
  written takes the last sector column as the target, and that is what is modelled.
\<close>

definition optimized :: "solver \<Rightarrow> ndarray \<Rightarrow> error + float64 list" where
  "optimized lsq_linear output_ppp =
     (let predictors = all_but_last_column output_ppp in
      case last_column output_ppp of
        Inl e \<Rightarrow> Inl e
      | Inr target \<Rightarrow> lsq_linear predictors target (Finite 0, PosInf))"

text \<open>\<^verbatim>\<open>dict(pairs)\<close>: a later pair replaces an earlier one with the same key.\<close>

definition dict :: "('k \<times> 'v) list \<Rightarrow> ('k \<rightharpoonup> 'v)" where
  "dict pairs = foldl (\<lambda>m (k, v). m(k \<mapsto> v)) Map.empty pairs"

text \<open>
  Lines 84 to 118 for a given harmonized table and input-output table: the diagnostics
  printed, and either the exception that ends the run or the mapping that is printed last.
\<close>

definition pipeline ::
  "solver \<Rightarrow> dataframe \<Rightarrow> io_table \<Rightarrow> string list \<times> (error + (string \<rightharpoonup> float64))" where
  "pipeline lsq_linear alldata all_matrix =
     (case design_matrix alldata all_matrix of
        (msgs, Inl e) \<Rightarrow> (msgs, Inl e)
      | (msgs, Inr output_ppp) \<Rightarrow>
          (msgs,
           case optimized lsq_linear (drop_missing output_ppp) of
             Inl e \<Rightarrow> Inl e
           | Inr x \<Rightarrow> Inr (dict (zip (sectors (labels all_matrix)) x))))"

text \<open>The whole script.\<close>

definition script ::
  "service \<Rightarrow> solver \<Rightarrow> io_table \<Rightarrow> string list \<times> (error + (string \<rightharpoonup> float64))" where
  "script fetch lsq_linear all_matrix =
     (case harmonize fetch of
        Inl e \<Rightarrow> ([], Inl e)
      | Inr alldata \<Rightarrow> pipeline lsq_linear alldata all_matrix)"

section \<open>What the specification says of the solver\<close>

text \<open>
  Modelled from the spec: \<^verbatim>\<open>scipy.optimize.lsq_linear\<close> is a library routine that the
  script calls and does not contain. Section 4.4 of the specification says what it is to
  solve: "minimize over w (length = |Sectors| - 1, elementwise non-negative, no upper
  bound) the squared Euclidean norm of (predictors w - target)". The number that a finite
  float stands for:
\<close>

definition value_of :: "float64 \<Rightarrow> real" where
  "value_of x = (case x of Finite a \<Rightarrow> a | _ \<Rightarrow> 0)"

text \<open>
  Modelled from the spec: the product of one row of the predictors with the coefficient
  vector, and the squared Euclidean norm of predictors times \<open>w\<close> minus target.
\<close>

definition dot :: "float64 list \<Rightarrow> float64 list \<Rightarrow> real" where
  "dot r w = sum_list (map2 (\<lambda>a x. value_of a * value_of x) r w)"

definition residual :: "float64 list list \<Rightarrow> float64 list \<Rightarrow> float64 list \<Rightarrow> real" where
  "residual A w b = sum_list (map2 (\<lambda>r t. (dot r w - value_of t)\<^sup>2) A b)"

text \<open>
  Modelled from the spec: a vector of the given length that is "elementwise non-negative,
  no upper bound": every component is a finite number that is not negative.
\<close>

definition nonneg :: "float64 \<Rightarrow> bool" where
  "nonneg x = (case x of Finite a \<Rightarrow> 0 \<le> a | _ \<Rightarrow> False)"

definition feasible :: "nat \<Rightarrow> float64 list \<Rightarrow> bool" where
  "feasible n w = (length w = n \<and> list_all nonneg w)"

text \<open>
  Modelled from the spec: \<open>w\<close> solves the problem for the predictors \<open>A\<close> and the target
  \<open>b\<close>: it is feasible and no feasible vector has a smaller squared residual.
\<close>

definition feasible_minimiser :: "ndarray \<Rightarrow> float64 list \<Rightarrow> float64 list \<Rightarrow> bool" where
  "feasible_minimiser A b w =
     (feasible (ncols A) w
      \<and> (\<forall>w'. feasible (ncols A) w' \<longrightarrow> residual (rows A) w b \<le> residual (rows A) w' b))"

text \<open>
  Modelled from the spec: the data of a problem are dense: every row of the predictors has
  as many entries as there are columns, the target has one entry per row, and every entry
  is a finite number.
\<close>

definition finite_float :: "float64 \<Rightarrow> bool" where
  "finite_float x = (case x of Finite a \<Rightarrow> True | _ \<Rightarrow> False)"

definition dense :: "ndarray \<Rightarrow> bool" where
  "dense m = list_all (\<lambda>r. length r = ncols m \<and> list_all finite_float r) (rows m)"

definition finite_data :: "ndarray \<Rightarrow> float64 list \<Rightarrow> bool" where
  "finite_data A b = (dense A \<and> length b = length (rows A) \<and> list_all finite_float b)"

text \<open>
  Modelled from the spec: the solver as the specification describes it. Called with dense
  data and the bounds zero and infinity, what it returns is a feasible minimiser. The
  specification lets the solver fail (its error class SolverFailure), so that it answers
  a given call is a hypothesis of its own in the theorems.
\<close>

definition nnls_contract :: "solver \<Rightarrow> bool" where
  "nnls_contract lsq_linear =
     (\<forall>A b w. finite_data A b \<longrightarrow> lsq_linear A b (Finite 0, PosInf) = Inr w
        \<longrightarrow> feasible_minimiser A b w)"

text \<open>
  A solver for the examples. It tries one candidate, the first entries of the target, and
  answers with it when it is feasible and fits without residual; otherwise it fails.
\<close>

definition exact_fit_solver :: solver where
  "exact_fit_solver A b bounds =
     (let w = take (ncols A) b in
      if feasible (ncols A) w \<and> residual (rows A) w b = 0 then Inr w else Inl LinAlgError)"

text \<open>
  The matrix whose predictors are the identity and whose last column is the target: row
  \<open>i\<close> has a one in column \<open>i\<close>, zeros in the other predictor columns, and entry \<open>i\<close> of the
  target at the end.
\<close>

definition unit_row :: "nat \<Rightarrow> nat \<Rightarrow> float64 list" where
  "unit_row n i = map (\<lambda>j. Finite (if j = i then 1 else 0)) [0..<n]"

definition identity_with_target :: "float64 list \<Rightarrow> ndarray" where
  "identity_with_target target =
     \<lparr>ncols = length target + 1,
      rows = map (\<lambda>i. unit_row (length target) i @ [target ! i]) [0..<length target]\<rparr>"

section \<open>Sector extraction\<close>

lemma startswith_prefix: "startswith s p = prefix p s"
  by (auto simp: startswith_def prefix_def) (metis append_eq_conv_conj)

lemma startswith_reprefix: "startswith s p \<Longrightarrow> p @ drop (length p) s = s"
  unfolding startswith_def by (metis append_take_drop_id)

lemma reprefix_AUS: "startswith sect ''AUS_'' \<Longrightarrow> ''AUS_'' @ drop 4 sect = sect"
  using startswith_reprefix [of sect "''AUS_''"] by (simp add: numeral_eq_Suc)

lemma sectors_reprefix:
  "map (\<lambda>s. ''AUS_'' @ s) (sectors cols) = filter (prefix ''AUS_'') cols"
proof (induction cols)
  case Nil
  show ?case by (simp add: sectors_def)
next
  case (Cons c cols)
  then show ?case
    using reprefix_AUS [of c]
    by (cases "startswith c ''AUS_''") (simp_all add: sectors_def startswith_prefix)
qed

lemma sectors_empty_iff:
  "(sectors cols = []) = (\<not> (\<exists>c. c \<in> set cols \<and> prefix ''AUS_'' c))"
  by (auto simp: sectors_def startswith_prefix filter_empty_conv)

text \<open>
  C5. Putting the prefix \<^verbatim>\<open>"AUS_"\<close> back in front of the extracted sectors gives exactly the
  columns that begin with \<^verbatim>\<open>"AUS_"\<close>, in the order of the table (so the sectors are the
  stripped suffixes of those columns and of no others, in source order), and the sector
  list is empty if and only if no column has that prefix.
\<close>

theorem sectors_extraction:
  "map (\<lambda>s. ''AUS_'' @ s) (sectors cols) = filter (prefix ''AUS_'') cols
   \<and> length (sectors cols) = length (filter (prefix ''AUS_'') cols)
   \<and> ((sectors cols = []) = (\<not> (\<exists>c. c \<in> set cols \<and> prefix ''AUS_'' c)))"
proof -
  have "length (map (\<lambda>s. ''AUS_'' @ s) (sectors cols)) = length (filter (prefix ''AUS_'') cols)"
    by (simp only: sectors_reprefix)
  then show ?thesis
    using sectors_reprefix [of cols] sectors_empty_iff [of cols] by simp
qed

theorem sectors_extraction_witness:
  "sectors [''AUS_C01T05'', ''AUT_C01T05'', ''AUS_C10T14'', ''OUT'', ''AUS''] = [''C01T05'', ''C10T14'']
   \<and> map (\<lambda>s. ''AUS_'' @ s) (sectors [''AUS_C01T05'', ''AUT_C01T05'', ''AUS_C10T14'', ''OUT'', ''AUS''])
     = filter (prefix ''AUS_'') [''AUS_C01T05'', ''AUT_C01T05'', ''AUS_C10T14'', ''OUT'', ''AUS'']"
  using sectors_extraction [of "[''AUS_C01T05'', ''AUT_C01T05'', ''AUS_C10T14'', ''OUT'', ''AUS'']"]
  by (simp add: sectors_def startswith_def)

section \<open>Maximum over the time axis\<close>

lemma fle_refl: "x \<noteq> NaN \<Longrightarrow> fle x x"
  by (cases x) simp_all

lemma fle_trans: "fle a b \<Longrightarrow> fle b c \<Longrightarrow> fle a c"
  by (cases a; cases b; cases c) simp_all

lemma fle_total: "a \<noteq> NaN \<Longrightarrow> b \<noteq> NaN \<Longrightarrow> fle a b \<or> fle b a"
  by (cases a; cases b) auto

lemma fle_not_NaN: "fle a b \<Longrightarrow> a \<noteq> NaN \<and> b \<noteq> NaN"
  by (cases a; cases b) simp_all

lemma fmax_cases: "fmax a b = a \<or> fmax a b = b"
  by (simp add: fmax_def)

lemma fmax_ge: "a \<noteq> NaN \<Longrightarrow> b \<noteq> NaN \<Longrightarrow> fle a (fmax a b) \<and> fle b (fmax a b)"
  using fle_total [of a b] by (auto simp: fmax_def fle_refl)

lemma foldl_fmax_in: "foldl fmax y ys \<in> set (y # ys)"
proof (induction ys arbitrary: y)
  case Nil
  show ?case by simp
next
  case (Cons z zs)
  have "foldl fmax (fmax y z) zs \<in> set (fmax y z # zs)" by (rule Cons.IH)
  then show ?case using fmax_cases [of y z] by auto
qed

lemma foldl_fmax_ge:
  "NaN \<notin> set (y # ys) \<Longrightarrow> x \<in> set (y # ys) \<Longrightarrow> fle x (foldl fmax y ys)"
proof (induction ys arbitrary: y x)
  case Nil
  then show ?case by (simp add: fle_refl)
next
  case (Cons z zs)
  have yz: "y \<noteq> NaN" "z \<noteq> NaN" using Cons.prems(1) by auto
  have m: "fmax y z \<noteq> NaN" using fmax_cases [of y z] yz by auto
  have nn: "NaN \<notin> set (fmax y z # zs)" using m Cons.prems(1) by auto
  have top: "fle (fmax y z) (foldl fmax (fmax y z) zs)"
    using Cons.IH [OF nn, of "fmax y z"] by simp
  consider "x = y" | "x = z" | "x \<in> set zs" using Cons.prems(2) by auto
  then show ?case
  proof cases
    case 1
    then show ?thesis using fmax_ge [OF yz] top fle_trans by auto
  next
    case 2
    then show ?thesis using fmax_ge [OF yz] top fle_trans by auto
  next
    case 3
    then show ?thesis using Cons.IH [OF nn, of x] by simp
  qed
qed

lemma nanmax_props:
  assumes "x \<in> set obs" "x \<noteq> NaN"
  shows "nanmax obs \<in> set obs" "nanmax obs \<noteq> NaN" "fle x (nanmax obs)"
proof -
  let ?ys = "filter (\<lambda>x. \<not> isnan x) obs"
  have xin: "x \<in> set ?ys" using assms by (simp add: isnan_def)
  then obtain y ys where ys: "?ys = y # ys" by (cases ?ys) auto
  have nm: "nanmax obs = foldl fmax y ys" by (simp add: nanmax_def ys)
  have nn: "NaN \<notin> set (y # ys)"
  proof
    assume "NaN \<in> set (y # ys)"
    then have "NaN \<in> set ?ys" by (simp only: ys)
    then show False by (simp add: isnan_def)
  qed
  have "foldl fmax y ys \<in> set ?ys" using foldl_fmax_in [of y ys] by (simp only: ys)
  then show "nanmax obs \<in> set obs" by (simp add: nm)
  show "fle x (nanmax obs)" using foldl_fmax_ge [OF nn, of x] xin by (simp add: nm ys)
  then show "nanmax obs \<noteq> NaN" using fle_not_NaN by blast
qed

lemma length_sequence: "length (sequence raw) = length raw"
  by (simp add: sequence_def droplevel_def frame_max_def)

lemma sequence_nth:
  "i < length raw \<Longrightarrow> raw ! i = ((freq, code, area), obs) \<Longrightarrow> sequence raw ! i = (area, nanmax obs)"
  by (simp add: sequence_def droplevel_def frame_max_def)

text \<open>
  C8. The harmonizer reduces the raw observation table to one value per series column,
  labelled with the reference area of that column. Where the column has an observation that
  is not not-a-number, the value kept is one of the column's observations and no observed
  value exceeds it: it is the maximum over the time axis. It is not the most recent
  observation as soon as some observation is not below-or-equal to the last one.
\<close>

theorem sequence_is_maximum:
  assumes "i < length raw" and "raw ! i = ((freq, code, area), obs)"
    and "x \<in> set obs" and "x \<noteq> NaN"
  shows "length (sequence raw) = length raw
    \<and> fst (sequence raw ! i) = area
    \<and> snd (sequence raw ! i) \<in> set obs
    \<and> snd (sequence raw ! i) \<noteq> NaN
    \<and> fle x (snd (sequence raw ! i))
    \<and> (\<not> fle x (last obs) \<longrightarrow> snd (sequence raw ! i) \<noteq> last obs)"
proof -
  have s: "sequence raw ! i = (area, nanmax obs)" using assms(1,2) by (rule sequence_nth)
  have le: "fle x (nanmax obs)" using assms(3,4) by (rule nanmax_props)
  have "\<not> fle x (last obs) \<longrightarrow> nanmax obs \<noteq> last obs" using le by auto
  then show ?thesis
    using s le nanmax_props(1,2) [OF assms(3,4)] by (simp add: length_sequence)
qed

theorem sequence_is_maximum_witness:
  "sequence [((''A'', ''NY_GDP_MKTP_CD'', ''DEU''), [Finite 5, Finite 3]),
             ((''A'', ''NY_GDP_MKTP_CD'', ''FRA''), [NaN, Finite 2])]
     = [(''DEU'', Finite 5), (''FRA'', Finite 2)]
   \<and> snd (sequence [((''A'', ''NY_GDP_MKTP_CD'', ''DEU''), [Finite 5, Finite 3]),
             ((''A'', ''NY_GDP_MKTP_CD'', ''FRA''), [NaN, Finite 2])] ! 0) \<noteq> last [Finite 5, Finite 3]"
  using sequence_is_maximum [of 0 "[((''A'', ''NY_GDP_MKTP_CD'', ''DEU''), [Finite 5, Finite 3]),
             ((''A'', ''NY_GDP_MKTP_CD'', ''FRA''), [NaN, Finite 2])]" "''A''" "''NY_GDP_MKTP_CD''" "''DEU''"
             "[Finite 5, Finite 3]" "Finite 5"]
  by (simp add: sequence_def droplevel_def frame_max_def nanmax_def isnan_def fmax_def)

section \<open>The PPP column\<close>

lemma map_of_setcol:
  "map_of (setcol cols name vs) n = (if n = name then Some vs else map_of cols n)"
  by (induction cols name vs rule: setcol.induct) auto

lemma getitem_setitem:
  "getitem (setitem df name vs) n =
     (if n = name then Inr (zip (index df) vs) else getitem df n)"
  by (simp add: getitem_def setitem_def map_of_setcol split: option.splits)

lemma map_of_zip_series_div:
  "map_of (zip idx a) c = Some x \<Longrightarrow> map_of (zip idx b) c = Some y \<Longrightarrow>
   map_of (zip idx (map snd (series_div (zip idx a) (zip idx b)))) c = Some (fdiv x y)"
proof (induction idx arbitrary: a b)
  case Nil
  then show ?case by simp
next
  case (Cons l idx)
  obtain x' a' where a: "a = x' # a'" using Cons.prems(1) by (cases a) auto
  obtain y' b' where b: "b = y' # b'" using Cons.prems(2) by (cases b) auto
  show ?case
  proof (cases "l = c")
    case True
    then show ?thesis using Cons.prems by (simp add: a b series_div_def)
  next
    case False
    then have "map_of (zip idx a') c = Some x" "map_of (zip idx b') c = Some y"
      using Cons.prems by (simp_all add: a b)
    then have "map_of (zip idx (map snd (series_div (zip idx a') (zip idx b')))) c = Some (fdiv x y)"
      by (rule Cons.IH)
    then show ?thesis using False by (simp add: a b series_div_def)
  qed
qed

lemma first_entry_Inr: "(first_entry s label = Inr v) = (map_of s label = Some v)"
  by (simp add: first_entry_def split: option.splits)

lemma add_ppp_at:
  assumes "add_ppp df = Inr alldata"
    and "frame_at alldata GNI_Atlas c = Inr a"
    and "frame_at alldata GNI_PPP c = Inr b"
  shows "frame_at alldata ''PPP'' c = Inr (fdiv a b)"
proof -
  obtain sa sb where sa: "getitem df GNI_Atlas = Inr sa" and sb: "getitem df GNI_PPP = Inr sb"
    and ad: "alldata = setitem df ''PPP'' (map snd (series_div sa sb))"
    using assms(1) by (auto simp: add_ppp_def split: sum.splits)
  obtain va where va: "map_of (columns df) GNI_Atlas = Some va" and sa': "sa = zip (index df) va"
    using sa by (auto simp: getitem_def split: option.splits)
  obtain vb where vb: "map_of (columns df) GNI_PPP = Some vb" and sb': "sb = zip (index df) vb"
    using sb by (auto simp: getitem_def split: option.splits)
  have ga: "getitem alldata GNI_Atlas = Inr sa"
    unfolding ad by (simp add: getitem_setitem sa)
  have gb: "getitem alldata GNI_PPP = Inr sb"
    unfolding ad by (simp add: getitem_setitem sb)
  have xa: "map_of (zip (index df) va) c = Some a"
    using assms(2) by (simp add: frame_at_def ga first_entry_Inr sa')
  have xb: "map_of (zip (index df) vb) c = Some b"
    using assms(3) by (simp add: frame_at_def gb first_entry_Inr sb')
  have "map_of (zip (index df) (map snd (series_div sa sb))) c = Some (fdiv a b)"
    unfolding sa' sb' using xa xb by (rule map_of_zip_series_div)
  then show ?thesis
    unfolding ad by (simp add: frame_at_def getitem_setitem first_entry_Inr)
qed

lemma harmonize_add_ppp:
  "harmonize fetch = Inr alldata \<Longrightarrow> \<exists>df. add_ppp df = Inr alldata"
  by (auto simp: harmonize_def split: sum.splits option.splits)

text \<open>
  C6. In the table that the harmonizer returns, for every country whose row holds a value
  (not not-a-number) in both GNI-per-capita columns, the entry of the PPP column is the
  Atlas-method value divided by the PPP value; for finite values and a divisor other than
  zero that is their quotient.
\<close>

theorem ppp_column:
  assumes "harmonize fetch = Inr alldata"
    and "frame_at alldata GNI_Atlas c = Inr a"
    and "frame_at alldata GNI_PPP c = Inr b"
    and "a \<noteq> NaN" and "b \<noteq> NaN"
  shows "frame_at alldata ''PPP'' c = Inr (fdiv a b)
    \<and> (\<forall>x y. a = Finite x \<longrightarrow> b = Finite y \<longrightarrow> y \<noteq> 0 \<longrightarrow>
          frame_at alldata ''PPP'' c = Inr (Finite (x / y)))"
proof -
  obtain df where "add_ppp df = Inr alldata"
    using harmonize_add_ppp [OF assms(1)] by blast
  then have "frame_at alldata ''PPP'' c = Inr (fdiv a b)"
    using assms(2,3) by (rule add_ppp_at)
  then show ?thesis by auto
qed


theorem ppp_column_witness:
  "harmonize (\<lambda>n. Inr [((''A'', n, ''FRA''), [if n = ''NY_GNP_PCAP_CD'' then Finite 6 else Finite 3])])
     = Inr \<lparr>index = [''FRA''],
        columns =
          [(''Agricultural land (% of land area)'', [Finite 3]),
           (''Forest area (sq. km)'', [Finite 3]),
           (''CO2 emissions (metric tons per capita)'', [Finite 3]),
           (''GDP (current US$)'', [Finite 3]),
           (GNI_Atlas, [Finite 6]),
           (GNI_PPP, [Finite 3]),
           (''GNI, Atlas method (current US$)'', [Finite 3]),
           (''GNI, PPP (current international $)'', [Finite 3]),
           (''Surface area (sq. km)'', [Finite 3]),
           (''PPP'', [Finite 2])]\<rparr>
   \<and> frame_at \<lparr>index = [''FRA''],
        columns =
          [(''Agricultural land (% of land area)'', [Finite 3]),
           (''Forest area (sq. km)'', [Finite 3]),
           (''CO2 emissions (metric tons per capita)'', [Finite 3]),
           (''GDP (current US$)'', [Finite 3]),
           (GNI_Atlas, [Finite 6]),
           (GNI_PPP, [Finite 3]),
           (''GNI, Atlas method (current US$)'', [Finite 3]),
           (''GNI, PPP (current international $)'', [Finite 3]),
           (''Surface area (sq. km)'', [Finite 3]),
           (''PPP'', [Finite 2])]\<rparr> ''PPP'' ''FRA'' = Inr (fdiv (Finite 6) (Finite 3))"
  (is "harmonize ?f = Inr ?df \<and> _")
proof -
  have h: "harmonize ?f = Inr ?df"
    by (simp add: harmonize_def indicators_def data_write_def sequence_def droplevel_def
        frame_max_def nanmax_def isnan_def assign_series_def ensure_valid_index_def setitem_def
        reindex_def add_ppp_def getitem_def series_div_def)
  have a: "frame_at ?df GNI_Atlas ''FRA'' = Inr (Finite 6)"
    by (simp add: frame_at_def getitem_def first_entry_def)
  have b: "frame_at ?df GNI_PPP ''FRA'' = Inr (Finite 3)"
    by (simp add: frame_at_def getitem_def first_entry_def)
  show ?thesis
    using h ppp_column [OF h a b] by simp
qed

text \<open>
  The index of the harmonized table is never empty: the first series that arrives has at
  least one entry and gives the frame its index, and no later line changes it.
\<close>

lemma index_setitem: "index (setitem df name vs) = index df"
  by (simp add: setitem_def)

lemma assign_series_index:
  assumes "assign_series df name s = Inr df'" and "index df \<noteq> []"
  shows "index df' = index df"
  using assms
  by (auto simp: assign_series_def ensure_valid_index_def Let_def index_setitem split: if_splits)

lemma collect_index_nonempty:
  assumes "collect fetch inds st = Inr (Some df)"
    and "\<And>d. st = Some d \<Longrightarrow> index d \<noteq> []"
  shows "index df \<noteq> []"
  using assms
proof (induction inds arbitrary: st)
  case Nil
  then show ?case by simp
next
  case (Cons ind inds)
  obtain name description where ind: "ind = (name, description)" by (cases ind)
  obtain raw where w: "data_write fetch name = Inr raw"
    using Cons.prems(1) by (auto simp: ind split: sum.splits)
  have ne: "raw \<noteq> []" using w by (auto simp: data_write_def split: sum.splits if_splits)
  show ?case
  proof (cases st)
    case None
    let ?d = "\<lparr>index = map fst (sequence raw), columns = [(description, map snd (sequence raw))]\<rparr>"
    have c: "collect fetch inds (Some ?d) = Inr (Some df)"
      using Cons.prems(1) by (simp add: ind w None Let_def)
    have "sequence raw \<noteq> []" using ne length_sequence [of raw] by auto
    then have "index ?d \<noteq> []" by simp
    then show ?thesis using Cons.IH [OF c] by auto
  next
    case (Some d)
    obtain d' where a: "assign_series d description (sequence raw) = Inr d'"
      and c: "collect fetch inds (Some d') = Inr (Some df)"
      using Cons.prems(1) by (auto simp: ind w Some Let_def split: sum.splits)
    have "index d \<noteq> []" using Cons.prems(2) Some by simp
    then have "index d' \<noteq> []" using assign_series_index [OF a] by simp
    then show ?thesis using Cons.IH [OF c] by auto
  qed
qed

lemma harmonize_index_nonempty:
  assumes "harmonize fetch = Inr alldata"
  shows "index alldata \<noteq> []"
proof -
  obtain df where c: "collect fetch indicators None = Inr (Some df)"
    and p: "add_ppp df = Inr alldata"
    using assms by (auto simp: harmonize_def split: sum.splits option.splits)
  have "index df \<noteq> []" using collect_index_nonempty [OF c] by simp
  moreover have "index alldata = index df"
    using p by (auto simp: add_ppp_def index_setitem split: sum.splits)
  ultimately show ?thesis by simp
qed

lemma harmonize_empty_answer:
  assumes "fetch ''AG_LND_AGRI_ZS'' = Inr []"
  shows "harmonize fetch = Inl ValueError"
  by (simp add: harmonize_def indicators_def data_write_def assms)

section \<open>Filling and filtering the design matrix\<close>

lemma filter_label_distinct:
  "distinct (map fst s) \<Longrightarrow>
   filter (\<lambda>entry. fst entry = label) s =
     (case map_of s label of None \<Rightarrow> [] | Some v \<Rightarrow> [(label, v)])"
proof (induction s)
  case Nil
  show ?case by simp
next
  case (Cons e s)
  obtain l v where e: "e = (l, v)" by (cases e)
  have d: "distinct (map fst s)" and n: "l \<notin> fst ` set s" using Cons.prems by (simp_all add: e)
  show ?case
  proof (cases "l = label")
    case True
    then have "map_of s label = None" using n by (simp add: map_of_eq_None_iff)
    then have "filter (\<lambda>entry. fst entry = label) s = []" using Cons.IH [OF d] by simp
    then show ?thesis using True by (simp add: e)
  next
    case False
    then show ?thesis using Cons.IH [OF d] by (simp add: e)
  qed
qed

lemma series_get_distinct:
  "distinct (map fst s) \<Longrightarrow>
   series_get s label = (case map_of s label of None \<Rightarrow> Inl KeyError | Some v \<Rightarrow> Inr (Scalar v))"
  by (simp add: series_get_def filter_label_distinct split: option.splits)

lemma series_get_Inl: "series_get s label = Inl e \<Longrightarrow> e = KeyError"
  by (auto simp: series_get_def split: list.splits)

lemma getitem_Inl: "getitem df name = Inl e \<Longrightarrow> e = KeyError"
  by (auto simp: getitem_def split: option.splits)

lemma distinct_fst_zip: "distinct xs \<Longrightarrow> distinct (map fst (zip xs ys))"
  by (simp add: map_fst_zip_take)

lemma getitem_distinct:
  "getitem df name = Inr s \<Longrightarrow> distinct (index df) \<Longrightarrow> distinct (map fst s)"
  by (auto simp: getitem_def distinct_fst_zip split: option.splits)

lemma loc_OneRow:
  "loc t label = Inr (OneRow s) \<Longrightarrow> distinct (labels t) \<Longrightarrow> distinct (map fst s)"
  by (auto simp: loc_def distinct_fst_zip split: list.splits)

lemma cell_value_Inl:
  assumes "cell_value (OneRow all_output) alldata country sector = Inl e"
    and "distinct (map fst all_output)" and "distinct (index alldata)"
  shows "e = KeyError"
proof -
  let ?key = "country @ ''_'' @ sector"
  show ?thesis
  proof (cases "series_get all_output ?key")
    case (Inl e1)
    then show ?thesis using assms(1) series_get_Inl [OF Inl] by (simp add: cell_value_def)
  next
    case x: (Inr x)
    obtain v where v: "x = Scalar v"
      using x by (auto simp: series_get_distinct [OF assms(2)] split: option.splits)
    show ?thesis
    proof (cases "getitem alldata ''PPP''")
      case (Inl e2)
      then show ?thesis using assms(1) x getitem_Inl [OF Inl] by (simp add: cell_value_def)
    next
      case p: (Inr ppp)
      have dp: "distinct (map fst ppp)" using p assms(3) by (rule getitem_distinct)
      show ?thesis
      proof (cases "series_get ppp country")
        case (Inl e3)
        then show ?thesis
          using assms(1) x p series_get_Inl [OF Inl] by (simp add: cell_value_def)
      next
        case y: (Inr y)
        obtain q where "y = Scalar q"
          using y by (auto simp: series_get_distinct [OF dp] split: option.splits)
        then show ?thesis using assms(1) x p y v by (simp add: cell_value_def)
      qed
    qed
  qed
qed

lemma try_cell_total:
  assumes "distinct (map fst all_output)" and "distinct (index alldata)"
  shows "try_cell (OneRow all_output) alldata country sector
    = Inr (cell_result all_output alldata country sector)"
proof (cases "cell_value (OneRow all_output) alldata country sector")
  case (Inl e)
  then have "e = KeyError" using assms by (rule cell_value_Inl)
  then show ?thesis using Inl by (simp add: try_cell_def cell_result_def)
next
  case (Inr x)
  then show ?thesis by (simp add: try_cell_def cell_result_def)
qed

lemma fill_row_total:
  assumes "distinct (map fst all_output)" and "distinct (index alldata)"
  shows "fill_row (OneRow all_output) alldata country sects =
     (concat (map (\<lambda>s. snd (cell_result all_output alldata country s)) sects),
      Inr (map (\<lambda>s. fst (cell_result all_output alldata country s)) sects))"
  by (induction sects) (simp_all add: try_cell_total [OF assms] split: prod.splits)

lemma fill_rows_total:
  assumes "distinct (map fst all_output)" and "distinct (index alldata)"
  shows "fill_rows (OneRow all_output) alldata countries sects =
     (concat (map (\<lambda>c. concat (map (\<lambda>s. snd (cell_result all_output alldata c s)) sects))
        countries),
      Inr (map (\<lambda>c. map (\<lambda>s. fst (cell_result all_output alldata c s)) sects) countries))"
  by (induction countries) (simp_all add: fill_row_total [OF assms])

lemma design_matrix_total:
  assumes "loc all_matrix ''OUT'' = Inr (OneRow all_output)"
    and "distinct (labels all_matrix)" and "distinct (index alldata)"
  shows "design_matrix alldata all_matrix =
     (concat (map (\<lambda>c. concat (map (\<lambda>s. snd (cell_result all_output alldata c s))
                    (sectors (labels all_matrix)))) (index alldata)),
      Inr \<lparr>ncols = length (sectors (labels all_matrix)),
           rows = map (\<lambda>c. map (\<lambda>s. fst (cell_result all_output alldata c s))
                    (sectors (labels all_matrix))) (index alldata)\<rparr>)"
proof -
  have "distinct (map fst all_output)" using assms(1,2) by (rule loc_OneRow)
  then show ?thesis
    by (simp add: design_matrix_def assms(1) fill_rows_total [OF _ assms(3)] Let_def)
qed

lemma ncols_design_matrix:
  "design_matrix alldata all_matrix = (msgs, Inr m) \<Longrightarrow>
   ncols m = length (sectors (labels all_matrix))"
  by (auto simp: design_matrix_def Let_def split: sum.splits prod.splits)

lemma select_by_mask: "map fst (filter snd (zip xs (map f xs))) = filter f xs"
  by (induction xs) simp_all

lemma rows_drop_missing:
  "rows (drop_missing m) = filter (\<lambda>r. \<not> list_ex isnan r) (rows m)"
  using select_by_mask [of "rows m" "\<lambda>r. \<not> list_ex isnan r"]
  by (simp add: drop_missing_def mask_select_def any_nan_def comp_def)

lemma ncols_drop_missing: "ncols (drop_missing m) = ncols m"
  by (simp add: drop_missing_def mask_select_def)

lemma frame_at_series_get:
  assumes "frame_at alldata name label = Inr p" and "distinct (index alldata)"
  shows "\<exists>s. getitem alldata name = Inr s \<and> series_get s label = Inr (Scalar p)"
proof -
  obtain s where s: "getitem alldata name = Inr s" and f: "first_entry s label = Inr p"
    using assms(1) by (auto simp: frame_at_def split: sum.splits)
  have "distinct (map fst s)" using s assms(2) by (rule getitem_distinct)
  moreover have "map_of s label = Some p"
    using f by (simp add: first_entry_def split: option.splits)
  ultimately have "series_get s label = Inr (Scalar p)"
    by (simp add: series_get_distinct)
  then show ?thesis using s by blast
qed

lemma cell_result_present:
  assumes "series_get all_output (country @ ''_'' @ sector) = Inr (Scalar v)"
    and "frame_at alldata ''PPP'' country = Inr p"
    and "distinct (index alldata)"
  shows "cell_result all_output alldata country sector = (fdiv v p, [])"
  using assms(1) frame_at_series_get [OF assms(2,3)]
  by (auto simp: cell_result_def cell_value_def)

lemma cell_result_missing:
  assumes "series_get all_output (country @ ''_'' @ sector) = Inl e"
  shows "cell_result all_output alldata country sector = (NaN, [country @ ''_'' @ sector])"
  using assms by (simp add: cell_result_def cell_value_def)

lemma fdiv_NaN_right: "fdiv v NaN = NaN"
  by (cases v) simp_all

lemma cell_result_nan_ppp:
  assumes "frame_at alldata ''PPP'' country = Inr NaN" and "distinct (index alldata)"
  shows "fst (cell_result all_output alldata country sector) = NaN"
proof -
  obtain s where s: "getitem alldata ''PPP'' = Inr s" and g: "series_get s country = Inr (Scalar NaN)"
    using frame_at_series_get [OF assms] by blast
  show ?thesis
    by (auto simp: cell_result_def cell_value_def s g fdiv_NaN_right
        split: sum.splits item.splits)
qed

lemma printed_only:
  assumes "k \<in> set (snd (cell_result all_output alldata country sector))"
    and "distinct (map fst all_output)" and "distinct (index alldata)"
  shows "k = country @ ''_'' @ sector
    \<and> cell_value (OneRow all_output) alldata country sector = Inl KeyError"
proof (cases "cell_value (OneRow all_output) alldata country sector")
  case (Inl e)
  then show ?thesis
    using assms(1) cell_value_Inl [OF Inl assms(2,3)] by (simp add: cell_result_def)
next
  case (Inr x)
  then show ?thesis using assms(1) by (simp add: cell_result_def)
qed

text \<open>
  A repeated country label or a second total-output row ends the run: the lookup gives
  more than one value and the assignment of line 105 raises \<^verbatim>\<open>ValueError\<close>, which the
  handler does not catch.
\<close>

lemma repeated_label_aborts:
  "design_matrix
     \<lparr>index = [''FRA'', ''FRA''], columns = [(''PPP'', [Finite 2, Finite 4])]\<rparr>
     \<lparr>labels = [''AUS_S1'', ''FRA_S1''], table_rows = [(''OUT'', [Finite 1, Finite 6])]\<rparr>
   = ([], Inl ValueError)
   \<and> design_matrix
     \<lparr>index = [''FRA''], columns = [(''PPP'', [Finite 2])]\<rparr>
     \<lparr>labels = [''AUS_S1'', ''FRA_S1''],
      table_rows = [(''OUT'', [Finite 1, Finite 6]), (''OUT'', [Finite 1, Finite 6])]\<rparr>
   = ([], Inl ValueError)"
  by (simp add: design_matrix_def loc_def sectors_def startswith_def try_cell_def
      cell_value_def series_get_def getitem_def)

text \<open>
  C1. Take a table with pairwise different column labels and one total-output row, and a
  harmonized table with pairwise different country labels. Then for every country of the
  harmonized table's index and every extracted sector: if the composite key country,
  underscore, sector is in the total-output row and the country's PPP value is neither
  not-a-number nor zero, the matrix is built and its cell for that country and sector,
  before the rows with missing data are removed, is the total output under that key
  divided by the PPP value; for two finite values that is their quotient.
\<close>

theorem design_matrix_cell:
  assumes "loc all_matrix ''OUT'' = Inr (OneRow all_output)"
    and "distinct (labels all_matrix)"
    and "distinct (index alldata)"
    and "c < length (index alldata)"
    and "s < length (sectors (labels all_matrix))"
    and "series_get all_output (index alldata ! c @ ''_'' @ sectors (labels all_matrix) ! s)
           = Inr (Scalar v)"
    and "frame_at alldata ''PPP'' (index alldata ! c) = Inr p"
    and "p \<noteq> NaN" and "p \<noteq> Finite 0"
  shows "\<exists>m msgs. design_matrix alldata all_matrix = (msgs, Inr m)
    \<and> length (rows m) = length (index alldata)
    \<and> length (rows m ! c) = length (sectors (labels all_matrix))
    \<and> rows m ! c ! s = fdiv v p
    \<and> (\<forall>a b. v = Finite a \<longrightarrow> p = Finite b \<longrightarrow> rows m ! c ! s = Finite (a / b))"
proof -
  have "fst (cell_result all_output alldata (index alldata ! c) (sectors (labels all_matrix) ! s))
      = fdiv v p"
    using cell_result_present [OF assms(6,7,3)] by simp
  then show ?thesis
    using assms(4,5,9) by (auto simp: design_matrix_total [OF assms(1,2,3)])
qed

theorem design_matrix_cell_witness:
  "design_matrix
     \<lparr>index = [''AAA'', ''BBB'', ''CCC''], columns = [(''PPP'', [Finite 2, NaN, Finite 4])]\<rparr>
     \<lparr>labels = [''AUS_S1'', ''AUS_S2'', ''AAA_S1'', ''AAA_S2'', ''BBB_S1'', ''BBB_S2'', ''CCC_S1''],
      table_rows = [(''OUT'', [Finite 1, Finite 2, Finite 6, Finite 8, Finite 5, Finite 7, Finite 9])]\<rparr>
   = ([''CCC_S2''],
      Inr \<lparr>ncols = 2, rows = [[Finite 3, Finite 4], [NaN, NaN], [Finite (9 / 4), NaN]]\<rparr>)
   \<and> rows \<lparr>ncols = 2, rows = [[Finite 3, Finite 4], [NaN, NaN], [Finite (9 / 4), NaN]]\<rparr> ! 0 ! 1
       = Finite (8 / 2)"
  (is "design_matrix ?df ?t = (?msgs, Inr ?m) \<and> _")
proof -
  let ?out = "zip (labels ?t) [Finite 1, Finite 2, Finite 6, Finite 8, Finite 5, Finite 7, Finite 9]"
  have l: "loc ?t ''OUT'' = Inr (OneRow ?out)" by (simp add: loc_def)
  have dl: "distinct (labels ?t)" by simp
  have di: "distinct (index ?df)" by simp
  have c: "0 < length (index ?df)" by simp
  have s: "1 < length (sectors (labels ?t))" by (simp add: sectors_def startswith_def)
  have k: "series_get ?out (index ?df ! 0 @ ''_'' @ sectors (labels ?t) ! 1) = Inr (Scalar (Finite 8))"
    by (simp add: series_get_def sectors_def startswith_def)
  have p: "frame_at ?df ''PPP'' (index ?df ! 0) = Inr (Finite 2)"
    by (simp add: frame_at_def getitem_def first_entry_def)
  have d: "design_matrix ?df ?t = (?msgs, Inr ?m)"
    by (simp add: design_matrix_def loc_def sectors_def startswith_def try_cell_def
        cell_value_def series_get_def getitem_def)
  show ?thesis
    using design_matrix_cell [OF l dl di c s k p] d by auto
qed

text \<open>
  C3. Take a table with pairwise different column labels and one total-output row, and a
  harmonized table with pairwise different country labels. For every country and sector
  whose composite key is not in the total-output row, the build still returns a matrix:
  the cell is not-a-number and the key is among the lines printed. Every printed line is
  the key of a cell whose lookup raised \<^verbatim>\<open>KeyError\<close>. The matrix after the row filter has
  the same columns and consists of exactly the rows without a not-a-number cell, each as
  often as before and in the original order; so the row of that country is gone, as is
  every row with a not-a-number cell, and every other row is kept.
\<close>

theorem missing_key_policy:
  assumes "loc all_matrix ''OUT'' = Inr (OneRow all_output)"
    and "distinct (labels all_matrix)"
    and "distinct (index alldata)"
    and "c < length (index alldata)"
    and "s < length (sectors (labels all_matrix))"
    and "series_get all_output (index alldata ! c @ ''_'' @ sectors (labels all_matrix) ! s)
           = Inl KeyError"
  shows "\<exists>m msgs. design_matrix alldata all_matrix = (msgs, Inr m)
    \<and> length (rows m) = length (index alldata)
    \<and> rows m ! c ! s = NaN
    \<and> index alldata ! c @ ''_'' @ sectors (labels all_matrix) ! s \<in> set msgs
    \<and> ncols (drop_missing m) = ncols m
    \<and> rows (drop_missing m) = filter (\<lambda>r. \<not> list_ex isnan r) (rows m)
    \<and> rows m ! c \<notin> set (rows (drop_missing m))
    \<and> (\<forall>r \<in> set (rows m). list_ex isnan r \<longrightarrow> r \<notin> set (rows (drop_missing m)))
    \<and> (\<forall>r \<in> set (rows m). \<not> list_ex isnan r \<longrightarrow> r \<in> set (rows (drop_missing m)))
    \<and> subseq (rows (drop_missing m)) (rows m)
    \<and> (\<forall>k \<in> set msgs. \<exists>c' s'. c' \<in> set (index alldata) \<and> s' \<in> set (sectors (labels all_matrix))
          \<and> k = c' @ ''_'' @ s'
          \<and> cell_value (OneRow all_output) alldata c' s' = Inl KeyError)"
proof -
  let ?S = "sectors (labels all_matrix)"
  let ?f = "\<lambda>c s. cell_result all_output alldata c s"
  let ?m = "\<lparr>ncols = length ?S, rows = map (\<lambda>c. map (\<lambda>s. fst (?f c s)) ?S) (index alldata)\<rparr>"
  let ?msgs = "concat (map (\<lambda>c. concat (map (\<lambda>s. snd (?f c s)) ?S)) (index alldata))"
  let ?key = "index alldata ! c @ ''_'' @ ?S ! s"
  have dout: "distinct (map fst all_output)" using assms(1,2) by (rule loc_OneRow)
  have d: "design_matrix alldata all_matrix = (?msgs, Inr ?m)"
    using assms(1,2,3) by (rule design_matrix_total)
  have cr: "?f (index alldata ! c) (?S ! s) = (NaN, [?key])"
    using assms(6) by (rule cell_result_missing)
  have cell: "rows ?m ! c ! s = NaN"
    using assms(4,5) cr by simp
  have "?key \<in> set (snd (?f (index alldata ! c) (?S ! s)))" using cr by simp
  moreover have "index alldata ! c \<in> set (index alldata)" "?S ! s \<in> set ?S"
    using assms(4,5) by simp_all
  ultimately have printed: "?key \<in> set ?msgs" by auto
  have "isnan (rows ?m ! c ! s)" using cell by (simp add: isnan_def)
  moreover have "s < length (rows ?m ! c)" using assms(4,5) by simp
  ultimately have "list_ex isnan (rows ?m ! c)"
    unfolding list_ex_iff using nth_mem by blast
  then have gone: "rows ?m ! c \<notin> set (rows (drop_missing ?m))"
    by (simp add: rows_drop_missing)
  have sub: "subseq (rows (drop_missing ?m)) (rows ?m)"
    by (simp add: rows_drop_missing)
  have len: "length (rows ?m) = length (index alldata)" by simp
  have nc: "ncols (drop_missing ?m) = ncols ?m" by (rule ncols_drop_missing)
  have ex: "rows (drop_missing ?m) = filter (\<lambda>r. \<not> list_ex isnan r) (rows ?m)"
    by (rule rows_drop_missing)
  have "\<forall>r \<in> set (rows ?m). list_ex isnan r \<longrightarrow> r \<notin> set (rows (drop_missing ?m))"
    by (simp add: rows_drop_missing)
  moreover have "\<forall>r \<in> set (rows ?m). \<not> list_ex isnan r \<longrightarrow> r \<in> set (rows (drop_missing ?m))"
    by (simp add: rows_drop_missing)
  moreover have "\<forall>k \<in> set ?msgs. \<exists>c' s'. c' \<in> set (index alldata) \<and> s' \<in> set ?S
          \<and> k = c' @ ''_'' @ s'
          \<and> cell_value (OneRow all_output) alldata c' s' = Inl KeyError"
  proof
    fix k assume "k \<in> set ?msgs"
    then obtain c' s' where m: "c' \<in> set (index alldata)" "s' \<in> set ?S"
      and k: "k \<in> set (snd (?f c' s'))" by auto
    have "k = c' @ ''_'' @ s' \<and> cell_value (OneRow all_output) alldata c' s' = Inl KeyError"
      using k dout assms(3) by (rule printed_only)
    then show "\<exists>c' s'. c' \<in> set (index alldata) \<and> s' \<in> set ?S
          \<and> k = c' @ ''_'' @ s'
          \<and> cell_value (OneRow all_output) alldata c' s' = Inl KeyError"
      using m by blast
  qed
  ultimately have rest:
    "(\<forall>r \<in> set (rows ?m). list_ex isnan r \<longrightarrow> r \<notin> set (rows (drop_missing ?m)))
     \<and> (\<forall>r \<in> set (rows ?m). \<not> list_ex isnan r \<longrightarrow> r \<in> set (rows (drop_missing ?m)))
     \<and> (\<forall>k \<in> set ?msgs. \<exists>c' s'. c' \<in> set (index alldata) \<and> s' \<in> set ?S
          \<and> k = c' @ ''_'' @ s'
          \<and> cell_value (OneRow all_output) alldata c' s' = Inl KeyError)"
    by (intro conjI)
  show ?thesis
    apply (rule exI [of _ ?m], rule exI [of _ ?msgs])
    using d len cell printed nc ex gone sub rest by (intro conjI) blast+
qed

theorem missing_key_policy_witness:
  "design_matrix
     \<lparr>index = [''AAA'', ''BBB'', ''CCC''], columns = [(''PPP'', [Finite 2, Finite 1, Finite 4])]\<rparr>
     \<lparr>labels = [''AUS_S1'', ''AUS_S2'', ''AAA_S1'', ''AAA_S2'', ''BBB_S1'', ''BBB_S2'', ''CCC_S1''],
      table_rows = [(''OUT'', [Finite 1, Finite 2, Finite 6, Finite 8, Finite 5, Finite 7, Finite 9])]\<rparr>
   = ([''CCC_S2''],
      Inr \<lparr>ncols = 2, rows = [[Finite 3, Finite 4], [Finite 5, Finite 7], [Finite (9 / 4), NaN]]\<rparr>)
   \<and> rows \<lparr>ncols = 2, rows = [[Finite 3, Finite 4], [Finite 5, Finite 7], [Finite (9 / 4), NaN]]\<rparr>
        ! 2 ! 1 = NaN
   \<and> rows (drop_missing
        \<lparr>ncols = 2, rows = [[Finite 3, Finite 4], [Finite 5, Finite 7], [Finite (9 / 4), NaN]]\<rparr>)
       = [[Finite 3, Finite 4], [Finite 5, Finite 7]]"
  (is "design_matrix ?df ?t = (?msgs, Inr ?m) \<and> _")
proof -
  let ?out = "zip (labels ?t) [Finite 1, Finite 2, Finite 6, Finite 8, Finite 5, Finite 7, Finite 9]"
  have l: "loc ?t ''OUT'' = Inr (OneRow ?out)" by (simp add: loc_def)
  have dl: "distinct (labels ?t)" by simp
  have di: "distinct (index ?df)" by simp
  have c: "2 < length (index ?df)" by simp
  have s: "1 < length (sectors (labels ?t))" by (simp add: sectors_def startswith_def)
  have k: "series_get ?out (index ?df ! 2 @ ''_'' @ sectors (labels ?t) ! 1) = Inl KeyError"
    by (simp add: series_get_def sectors_def startswith_def)
  have d: "design_matrix ?df ?t = (?msgs, Inr ?m)"
    by (simp add: design_matrix_def loc_def sectors_def startswith_def try_cell_def
        cell_value_def series_get_def getitem_def)
  have f: "rows (drop_missing ?m) = [[Finite 3, Finite 4], [Finite 5, Finite 7]]"
    by (simp add: drop_missing_def mask_select_def any_nan_def isnan_def)
  have "\<exists>m msgs. design_matrix ?df ?t = (msgs, Inr m) \<and> rows m ! 2 ! 1 = NaN"
    using missing_key_policy [OF l dl di c s k]
    apply -
    apply (elim exE conjE)
    apply (intro exI conjI)
     apply assumption+
    done
  then have n: "rows ?m ! 2 ! 1 = NaN" unfolding d by simp
  show ?thesis
    using d f n by simp
qed

text \<open>
  C10, amended. Take a table with pairwise different column labels and one total-output
  row, and a harmonized table with pairwise different country labels. For a country whose
  PPP value is not-a-number, and a sector list that is not empty: every cell of the
  country's row is not-a-number; where the composite key is in the total-output row the
  cell is filled without anything being printed; and the row is absent from the matrix
  after the filter. With an empty sector list the row has no cell and the filter keeps it,
  as the counterexample shows.
\<close>

theorem nan_ppp_row:
  assumes "loc all_matrix ''OUT'' = Inr (OneRow all_output)"
    and "distinct (labels all_matrix)"
    and "distinct (index alldata)"
    and "c < length (index alldata)"
    and "frame_at alldata ''PPP'' (index alldata ! c) = Inr NaN"
    and "sectors (labels all_matrix) \<noteq> []"
  shows "\<exists>m msgs. design_matrix alldata all_matrix = (msgs, Inr m)
    \<and> length (rows m ! c) = length (sectors (labels all_matrix))
    \<and> (\<forall>s < length (sectors (labels all_matrix)). rows m ! c ! s = NaN)
    \<and> (\<forall>s < length (sectors (labels all_matrix)). \<forall>v.
          series_get all_output (index alldata ! c @ ''_'' @ sectors (labels all_matrix) ! s)
            = Inr (Scalar v)
          \<longrightarrow> try_cell (OneRow all_output) alldata (index alldata ! c)
                  (sectors (labels all_matrix) ! s)
                = Inr (NaN, []))
    \<and> any_nan m ! c
    \<and> rows m ! c \<notin> set (rows (drop_missing m))"
proof -
  let ?S = "sectors (labels all_matrix)"
  let ?f = "\<lambda>c s. cell_result all_output alldata c s"
  let ?m = "\<lparr>ncols = length ?S, rows = map (\<lambda>c. map (\<lambda>s. fst (?f c s)) ?S) (index alldata)\<rparr>"
  let ?msgs = "concat (map (\<lambda>c. concat (map (\<lambda>s. snd (?f c s)) ?S)) (index alldata))"
  have dout: "distinct (map fst all_output)" using assms(1,2) by (rule loc_OneRow)
  have d: "design_matrix alldata all_matrix = (?msgs, Inr ?m)"
    using assms(1,2,3) by (rule design_matrix_total)
  have len: "length (rows ?m ! c) = length ?S" using assms(4) by simp
  have cells: "\<forall>s < length ?S. rows ?m ! c ! s = NaN"
    using assms(4) cell_result_nan_ppp [OF assms(5,3)] by simp
  have quiet: "\<forall>s < length ?S. \<forall>v.
      series_get all_output (index alldata ! c @ ''_'' @ ?S ! s) = Inr (Scalar v)
      \<longrightarrow> try_cell (OneRow all_output) alldata (index alldata ! c) (?S ! s) = Inr (NaN, [])"
    using cell_result_present [OF _ assms(5,3)]
    by (simp add: try_cell_total [OF dout assms(3)] fdiv_NaN_right)
  have "0 < length ?S" using assms(6) by simp
  then have "rows ?m ! c ! 0 = NaN" "0 < length (rows ?m ! c)" using cells len by simp_all
  then have ex: "list_ex isnan (rows ?m ! c)"
    unfolding list_ex_iff isnan_def using nth_mem by metis
  then have a: "any_nan ?m ! c" using assms(4) by (simp add: any_nan_def)
  have gone: "rows ?m ! c \<notin> set (rows (drop_missing ?m))"
    using ex by (simp add: rows_drop_missing)
  show ?thesis using d len cells quiet a gone by blast
qed

theorem nan_ppp_row_witness:
  "design_matrix
     \<lparr>index = [''AAA'', ''BBB'', ''CCC''], columns = [(''PPP'', [Finite 2, NaN, Finite 4])]\<rparr>
     \<lparr>labels = [''AUS_S1'', ''AUS_S2'', ''AAA_S1'', ''AAA_S2'', ''BBB_S1'', ''BBB_S2'', ''CCC_S1''],
      table_rows = [(''OUT'', [Finite 1, Finite 2, Finite 6, Finite 8, Finite 5, Finite 7, Finite 9])]\<rparr>
   = ([''CCC_S2''],
      Inr \<lparr>ncols = 2, rows = [[Finite 3, Finite 4], [NaN, NaN], [Finite (9 / 4), NaN]]\<rparr>)
   \<and> [NaN, NaN] \<notin> set (rows (drop_missing
        \<lparr>ncols = 2, rows = [[Finite 3, Finite 4], [NaN, NaN], [Finite (9 / 4), NaN]]\<rparr>))"
  (is "design_matrix ?df ?t = (?msgs, Inr ?m) \<and> _")
proof -
  let ?out = "zip (labels ?t) [Finite 1, Finite 2, Finite 6, Finite 8, Finite 5, Finite 7, Finite 9]"
  have l: "loc ?t ''OUT'' = Inr (OneRow ?out)" by (simp add: loc_def)
  have dl: "distinct (labels ?t)" by simp
  have di: "distinct (index ?df)" by simp
  have c: "1 < length (index ?df)" by simp
  have p: "frame_at ?df ''PPP'' (index ?df ! 1) = Inr NaN"
    by (simp add: frame_at_def getitem_def first_entry_def)
  have s: "sectors (labels ?t) \<noteq> []" by (simp add: sectors_def startswith_def)
  have d: "design_matrix ?df ?t = (?msgs, Inr ?m)"
    by (simp add: design_matrix_def loc_def sectors_def startswith_def try_cell_def
        cell_value_def series_get_def getitem_def)
  show ?thesis
    using nan_ppp_row [OF l dl di c p s] d by auto
qed

theorem nan_ppp_row_counterexample:
  "frame_at \<lparr>index = [''XXX''], columns = [(''PPP'', [NaN])]\<rparr> ''PPP'' ''XXX'' = Inr NaN
   \<and> design_matrix \<lparr>index = [''XXX''], columns = [(''PPP'', [NaN])]\<rparr>
        \<lparr>labels = [''XXX_S1''], table_rows = [(''OUT'', [Finite 1])]\<rparr>
      = ([], Inr \<lparr>ncols = 0, rows = [[]]\<rparr>)
   \<and> drop_missing \<lparr>ncols = 0, rows = [[]]\<rparr> = \<lparr>ncols = 0, rows = [[]]\<rparr>"
  by (simp add: frame_at_def getitem_def first_entry_def design_matrix_def loc_def sectors_def
      startswith_def drop_missing_def mask_select_def any_nan_def)

section \<open>The reported mapping and the empty inputs\<close>

lemma foldl_update:
  "foldl (\<lambda>m (k, v). m(k \<mapsto> v)) m0 pairs = m0 ++ map_of (rev pairs)"
  by (induction pairs arbitrary: m0) (auto simp: map_add_def fun_eq_iff split: option.splits)

lemma map_of_rev_distinct:
  assumes "distinct (map fst pairs)"
  shows "map_of (rev pairs) = map_of pairs"
proof
  fix k
  have d: "distinct (map fst (rev pairs))" using assms by (simp add: rev_map [symmetric])
  show "map_of (rev pairs) k = map_of pairs k"
  proof (cases "map_of pairs k")
    case None
    then have "k \<notin> fst ` set pairs" by (simp add: map_of_eq_None_iff)
    then have "map_of (rev pairs) k = None" by (simp add: map_of_eq_None_iff)
    then show ?thesis using None by simp
  next
    case (Some v)
    then have "(k, v) \<in> set (rev pairs)" using map_of_SomeD by fastforce
    then show ?thesis using Some d by simp
  qed
qed

lemma dict_distinct: "distinct (map fst pairs) \<Longrightarrow> dict pairs = map_of pairs"
  by (simp add: dict_def foldl_update map_of_rev_distinct)

lemma distinct_sectors:
  assumes "distinct cols"
  shows "distinct (sectors cols)"
proof -
  have "distinct (filter (prefix ''AUS_'') cols)" using assms by simp
  then have "distinct (map (\<lambda>s. ''AUS_'' @ s) (sectors cols))" by (simp only: sectors_reprefix)
  then show ?thesis by (simp add: distinct_map)
qed

lemma zip_take_length: "zip xs ys = zip (take (length ys) xs) ys"
proof (induction xs arbitrary: ys)
  case Nil
  show ?case by simp
next
  case (Cons x xs)
  then show ?case by (cases ys) simp_all
qed

lemma zip_shorter:
  assumes "length x = length S - 1"
  shows "zip S x = zip (butlast S) x"
  using zip_take_length [of S x] assms by (simp add: butlast_conv_take)

lemma pipeline_Inr:
  assumes "pipeline lsq_linear alldata all_matrix = (msgs, Inr report)"
  shows "\<exists>m target x.
      design_matrix alldata all_matrix = (msgs, Inr m)
    \<and> ncols m = length (sectors (labels all_matrix))
    \<and> ncols m \<noteq> 0
    \<and> lsq_linear (all_but_last_column (drop_missing m)) target (Finite 0, PosInf) = Inr x
    \<and> optimized lsq_linear (drop_missing m) = Inr x
    \<and> report = dict (zip (sectors (labels all_matrix)) x)"
proof -
  obtain m x where d: "design_matrix alldata all_matrix = (msgs, Inr m)"
    and o: "optimized lsq_linear (drop_missing m) = Inr x"
    and r: "report = dict (zip (sectors (labels all_matrix)) x)"
    using assms by (auto simp: pipeline_def split: sum.splits prod.splits)
  have n: "ncols m = length (sectors (labels all_matrix))"
    using d by (rule ncols_design_matrix)
  obtain target where t: "last_column (drop_missing m) = Inr target"
    and q: "lsq_linear (all_but_last_column (drop_missing m)) target (Finite 0, PosInf) = Inr x"
    using o by (auto simp: optimized_def Let_def split: sum.splits)
  have "ncols (drop_missing m) \<noteq> 0"
    using t by (auto simp: last_column_def split: if_splits)
  then have "ncols m \<noteq> 0" by (simp add: ncols_drop_missing)
  then show ?thesis using d n q o r by blast
qed

text \<open>
  C9. The column labels of a table read by pandas are pairwise different, and the solver
  returns one coefficient per predictor column. Then, whenever the run ends by printing the
  mapping, there is at least one sector, the coefficient vector has one entry less than the
  sector list, the mapping sends sector \<open>i\<close> to coefficient \<open>i\<close> for every \<open>i\<close> below the
  length of the sector list minus one, its keys are the sectors without the last, and the
  last sector, whose column was the target, has no entry.
\<close>

theorem report_pairs:
  assumes "distinct (labels all_matrix)"
    and "\<forall>a b bounds x. lsq_linear a b bounds = Inr x \<longrightarrow> length x = ncols a"
    and "pipeline lsq_linear alldata all_matrix = (msgs, Inr report)"
  shows "\<exists>m x. design_matrix alldata all_matrix = (msgs, Inr m)
    \<and> optimized lsq_linear (drop_missing m) = Inr x
    \<and> sectors (labels all_matrix) \<noteq> []
    \<and> length x = length (sectors (labels all_matrix)) - 1
    \<and> report = dict (zip (sectors (labels all_matrix)) x)
    \<and> (\<forall>i < length (sectors (labels all_matrix)) - 1.
          report (sectors (labels all_matrix) ! i) = Some (x ! i))
    \<and> report (last (sectors (labels all_matrix))) = None
    \<and> dom report = set (butlast (sectors (labels all_matrix)))"
proof -
  let ?S = "sectors (labels all_matrix)"
  obtain m target x where d: "design_matrix alldata all_matrix = (msgs, Inr m)"
    and n: "ncols m = length ?S" and n0: "ncols m \<noteq> 0"
    and q: "lsq_linear (all_but_last_column (drop_missing m)) target (Finite 0, PosInf) = Inr x"
    and o: "optimized lsq_linear (drop_missing m) = Inr x"
    and r: "report = dict (zip ?S x)"
    using pipeline_Inr [OF assms(3)] by blast
  have ne: "?S \<noteq> []" using n n0 by auto
  have "length x = ncols (all_but_last_column (drop_missing m))" using assms(2) q by blast
  then have len: "length x = length ?S - 1"
    by (simp add: all_but_last_column_def ncols_drop_missing n)
  have dS: "distinct ?S" using assms(1) by (rule distinct_sectors)
  then have dB: "distinct (butlast ?S)" by (rule distinct_butlast)
  have lb: "length (butlast ?S) = length x" using len by simp
  have z: "zip ?S x = zip (butlast ?S) x" using len by (rule zip_shorter)
  have "dict (zip ?S x) = map_of (zip (butlast ?S) x)"
    unfolding z using dB lb by (simp add: dict_distinct)
  then have rm: "report = map_of (zip (butlast ?S) x)" using r by simp
  have pairs: "\<forall>i < length ?S - 1. report (?S ! i) = Some (x ! i)"
  proof (intro allI impI)
    fix i assume i: "i < length ?S - 1"
    then have "i < length x" using len by simp
    then have "map_of (zip (butlast ?S) x) (butlast ?S ! i) = Some (x ! i)"
      using lb dB by (simp add: map_of_zip_nth)
    moreover have "butlast ?S ! i = ?S ! i" using i by (simp add: nth_butlast)
    ultimately show "report (?S ! i) = Some (x ! i)" using rm by simp
  qed
  have dom: "dom report = set (butlast ?S)"
    unfolding rm using lb by simp
  have "distinct (butlast ?S @ [last ?S])" using dS ne by simp
  then have "last ?S \<notin> set (butlast ?S)" by simp
  then have lastS: "report (last ?S) = None" using dom by blast
  show ?thesis using d o ne len r pairs lastS dom by blast
qed

theorem report_pairs_witness:
  "pipeline (\<lambda>a b bounds. Inr (replicate (ncols a) (Finite 7)))
     \<lparr>index = [''AAA'', ''BBB''], columns = [(''PPP'', [Finite 2, Finite 1])]\<rparr>
     \<lparr>labels = [''AUS_S1'', ''AUS_S2'', ''AAA_S1'', ''AAA_S2'', ''BBB_S1'', ''BBB_S2''],
      table_rows = [(''OUT'', [Finite 1, Finite 2, Finite 6, Finite 8, Finite 5, Finite 7])]\<rparr>
   = ([], Inr [''S1'' \<mapsto> Finite 7])
   \<and> [''S1'' \<mapsto> Finite 7] (last (sectors [''AUS_S1'', ''AUS_S2'', ''AAA_S1'', ''AAA_S2'', ''BBB_S1'', ''BBB_S2''])) = None"
  (is "pipeline ?lsq ?df ?t = (_, Inr ?report) \<and> _")
proof -
  have d: "distinct (labels ?t)" by simp
  have sh: "\<forall>a b bounds x. ?lsq a b bounds = Inr x \<longrightarrow> length x = ncols a" by auto
  have p: "pipeline ?lsq ?df ?t = ([], Inr ?report)"
    by (simp add: pipeline_def design_matrix_def loc_def sectors_def startswith_def try_cell_def
        cell_value_def series_get_def getitem_def drop_missing_def mask_select_def any_nan_def
        isnan_def optimized_def last_column_def all_but_last_column_def dict_def)
  have "?report (last (sectors (labels ?t))) = None"
    using report_pairs [OF d sh p]
    apply -
    apply (elim exE conjE)
    apply assumption
    done
  then show ?thesis
    using p by simp
qed

lemma fill_row_no_sectors: "fill_row all_output alldata country [] = ([], Inr [])"
  by simp

lemma fill_rows_no_sectors:
  "fill_rows all_output alldata countries [] = ([], Inr (map (\<lambda>c. []) countries))"
  by (induction countries) simp_all

lemma design_matrix_no_sectors:
  assumes "loc all_matrix ''OUT'' = Inr all_output" and "sectors (labels all_matrix) = []"
  shows "design_matrix alldata all_matrix
    = ([], Inr \<lparr>ncols = 0, rows = map (\<lambda>c. []) (index alldata)\<rparr>)"
  by (simp add: design_matrix_def assms fill_rows_no_sectors)

lemma pipeline_no_sectors:
  assumes "loc all_matrix ''OUT'' = Inr all_output" and "sectors (labels all_matrix) = []"
  shows "pipeline lsq_linear alldata all_matrix = ([], Inl IndexError)"
  using design_matrix_no_sectors [OF assms]
  by (simp add: pipeline_def optimized_def last_column_def ncols_drop_missing)

text \<open>
  C4, amended. For a table with a total-output row and no column that begins with
  \<^verbatim>\<open>"AUS_"\<close>, the run ends before the solver is called, whatever the solver is, with
  nothing printed and with \<^verbatim>\<open>IndexError\<close>, raised at line 115 when the last column of a
  matrix without columns is taken; the script has no error of a kind of its own for the
  empty sector list. This holds for lines 84 to 118 on any harmonized table and for the
  whole script when the harmonizer returns a table. The harmonized table is never empty
  when line 84 is reached: a table that the harmonizer returns has at least one country,
  and an answer of the service without a series for the first indicator ends the run
  at line 61 with \<^verbatim>\<open>ValueError\<close>.
\<close>

theorem empty_inputs:
  assumes "loc all_matrix ''OUT'' = Inr all_output"
  shows "(sectors (labels all_matrix) = [] \<longrightarrow>
            pipeline lsq_linear alldata all_matrix = ([], Inl IndexError))
    \<and> (sectors (labels all_matrix) = [] \<longrightarrow> harmonize fetch = Inr table \<longrightarrow>
            script fetch lsq_linear all_matrix = ([], Inl IndexError))
    \<and> (harmonize fetch = Inr table \<longrightarrow> index table \<noteq> [])
    \<and> (fetch ''AG_LND_AGRI_ZS'' = Inr [] \<longrightarrow>
            script fetch lsq_linear all_matrix = ([], Inl ValueError))"
proof (intro conjI impI)
  assume "sectors (labels all_matrix) = []"
  then show "pipeline lsq_linear alldata all_matrix = ([], Inl IndexError)"
    using assms by (simp add: pipeline_no_sectors)
next
  assume "sectors (labels all_matrix) = []" and "harmonize fetch = Inr table"
  then show "script fetch lsq_linear all_matrix = ([], Inl IndexError)"
    using assms by (simp add: script_def pipeline_no_sectors)
next
  assume "harmonize fetch = Inr table"
  then show "index table \<noteq> []" by (rule harmonize_index_nonempty)
next
  assume "fetch ''AG_LND_AGRI_ZS'' = Inr []"
  then show "script fetch lsq_linear all_matrix = ([], Inl ValueError)"
    by (simp add: script_def harmonize_empty_answer)
qed

lemma harmonize_one_country:
  "harmonize (\<lambda>name. Inr [((''A'', name, ''FRA''), [Finite 3])])
     = Inr \<lparr>index = [''FRA''],
        columns =
          [(''Agricultural land (% of land area)'', [Finite 3]),
           (''Forest area (sq. km)'', [Finite 3]),
           (''CO2 emissions (metric tons per capita)'', [Finite 3]),
           (''GDP (current US$)'', [Finite 3]),
           (GNI_Atlas, [Finite 3]),
           (GNI_PPP, [Finite 3]),
           (''GNI, Atlas method (current US$)'', [Finite 3]),
           (''GNI, PPP (current international $)'', [Finite 3]),
           (''Surface area (sq. km)'', [Finite 3]),
           (''PPP'', [Finite 1])]\<rparr>"
  by (simp add: harmonize_def indicators_def data_write_def sequence_def droplevel_def
      frame_max_def nanmax_def isnan_def assign_series_def ensure_valid_index_def setitem_def
      reindex_def add_ppp_def getitem_def series_div_def)

theorem empty_inputs_witness:
  "pipeline exact_fit_solver
     \<lparr>index = [''AAA''], columns = [(''PPP'', [Finite 2])]\<rparr>
     \<lparr>labels = [''AAA_S1'', ''AAA_S2''], table_rows = [(''OUT'', [Finite 6, Finite 8])]\<rparr>
   = ([], Inl IndexError)
   \<and> script (\<lambda>name. Inr []) exact_fit_solver
     \<lparr>labels = [''AAA_S1'', ''AAA_S2''], table_rows = [(''OUT'', [Finite 6, Finite 8])]\<rparr>
   = ([], Inl ValueError)"
  (is "pipeline ?lsq ?df ?t = _ \<and> script ?f ?lsq ?t = _")
proof -
  have l: "loc ?t ''OUT'' = Inr (OneRow (zip (labels ?t) [Finite 6, Finite 8]))"
    by (simp add: loc_def)
  have s: "sectors (labels ?t) = []" by (simp add: sectors_def startswith_def)
  have e: "?f ''AG_LND_AGRI_ZS'' = Inr []" by simp
  note t = empty_inputs [OF l, of ?lsq ?df ?f]
  have a: "pipeline ?lsq ?df ?t = ([], Inl IndexError)"
    using t s by blast
  have b: "script ?f ?lsq ?t = ([], Inl ValueError)"
    using t e by blast
  show ?thesis using a b by simp
qed

text \<open>
  One country, and a table whose columns all belong to other countries than Australia:
  the whole script ends with \<^verbatim>\<open>IndexError\<close>, the exception of the slice, not with an error
  that names the empty sector list.
\<close>

theorem empty_inputs_counterexample:
  "script (\<lambda>name. Inr [((''A'', name, ''FRA''), [Finite 3])]) exact_fit_solver
     \<lparr>labels = [''FRA_S1'', ''FRA_S2''], table_rows = [(''OUT'', [Finite 6, Finite 8])]\<rparr>
   = ([], Inl IndexError)"
  by (simp add: script_def harmonize_one_country pipeline_def design_matrix_def loc_def
      sectors_def startswith_def drop_missing_def mask_select_def any_nan_def optimized_def
      last_column_def)

section \<open>The estimator under the solver's contract\<close>

text \<open>
  What line 115 hands to \<^verbatim>\<open>lsq_linear\<close> for a matrix with at least one column: every
  column but the last as predictors, the last column as target, zero and infinity as
  bounds.
\<close>

lemma optimized_call:
  "ncols m \<noteq> 0 \<Longrightarrow>
   optimized lsq_linear m =
     lsq_linear \<lparr>ncols = ncols m - 1, rows = map butlast (rows m)\<rparr> (map last (rows m))
       (Finite 0, PosInf)"
  by (simp add: optimized_def last_column_def all_but_last_column_def)

lemma optimized_Inr_ncols: "optimized lsq_linear m = Inr w \<Longrightarrow> ncols m \<noteq> 0"
  by (auto simp: optimized_def last_column_def Let_def split: if_splits)

lemma residual_nonneg: "0 \<le> residual A w b"
  unfolding residual_def by (rule sum_list_nonneg) auto

lemma exact_fit_contract: "nnls_contract exact_fit_solver"
  unfolding nnls_contract_def feasible_minimiser_def
proof (intro allI impI conjI)
  fix A b w w'
  assume r: "exact_fit_solver A b (Finite 0, PosInf) = Inr w"
  then have w: "w = take (ncols A) b" and f: "feasible (ncols A) w"
    and z: "residual (rows A) w b = 0"
    by (auto simp: exact_fit_solver_def Let_def split: if_splits)
  show "feasible (ncols A) w" by (rule f)
  show "residual (rows A) w b \<le> residual (rows A) w' b"
    using z residual_nonneg [of "rows A" w' b] by simp
qed

lemma nonneg_finite: "nonneg x \<Longrightarrow> finite_float x"
  by (cases x) (simp_all add: nonneg_def finite_float_def)

lemma dense_split:
  assumes "dense m" and "ncols m \<noteq> 0"
  shows "finite_data \<lparr>ncols = ncols m - 1, rows = map butlast (rows m)\<rparr> (map last (rows m))"
proof -
  have r: "\<forall>r \<in> set (rows m). length r = ncols m \<and> list_all finite_float r"
    using assms(1) by (simp add: dense_def list_all_iff)
  have "\<forall>r \<in> set (rows m). length (butlast r) = ncols m - 1 \<and> list_all finite_float (butlast r)"
    using r by (auto simp: list_all_iff dest: in_set_butlastD)
  moreover have "\<forall>r \<in> set (rows m). finite_float (last r)"
  proof
    fix r assume "r \<in> set (rows m)"
    then have "length r = ncols m" "list_all finite_float r" using r by auto
    then have "r \<noteq> []" using assms(2) by auto
    then have "last r \<in> set r" by simp
    then show "finite_float (last r)" using \<open>list_all finite_float r\<close> by (simp add: list_all_iff)
  qed
  ultimately show ?thesis
    by (simp add: finite_data_def dense_def list_all_iff)
qed

text \<open>
  C2. Let the solver be as the specification describes it: what it returns for dense
  data and the bounds zero and infinity is a feasible minimiser. Then whenever the
  estimator returns a vector \<open>w\<close> for a dense matrix, \<open>w\<close> is the answer of the solver to
  all columns but the last as predictors and the last column as target; it has one entry
  less than the matrix has columns (for the filtered design matrix: one less than there
  are sectors); every component is a finite number that is not negative; and no vector
  of that length with such components has a smaller squared Euclidean norm of predictors
  times vector minus target.
\<close>

theorem estimator_minimises:
  assumes "nnls_contract lsq_linear"
    and "dense m"
    and "optimized lsq_linear m = Inr w"
  shows "lsq_linear \<lparr>ncols = ncols m - 1, rows = map butlast (rows m)\<rparr> (map last (rows m))
           (Finite 0, PosInf) = Inr w
    \<and> length w = ncols m - 1
    \<and> list_all nonneg w
    \<and> (\<forall>w'. feasible (ncols m - 1) w' \<longrightarrow>
          residual (map butlast (rows m)) w (map last (rows m))
            \<le> residual (map butlast (rows m)) w' (map last (rows m)))
    \<and> (design_matrix alldata all_matrix = (msgs, Inr m0) \<longrightarrow> m = drop_missing m0 \<longrightarrow>
          length w = length (sectors (labels all_matrix)) - 1)"
proof -
  let ?A = "\<lparr>ncols = ncols m - 1, rows = map butlast (rows m)\<rparr>"
  let ?b = "map last (rows m)"
  have n0: "ncols m \<noteq> 0" using assms(3) by (rule optimized_Inr_ncols)
  have call: "lsq_linear ?A ?b (Finite 0, PosInf) = Inr w"
    using assms(3) optimized_call [OF n0, of lsq_linear] by simp
  have "finite_data ?A ?b" using assms(2) n0 by (rule dense_split)
  then have fm: "feasible_minimiser ?A ?b w"
    using assms(1) call unfolding nnls_contract_def by blast
  have len: "length w = ncols m - 1" and nn: "list_all nonneg w"
    using fm by (simp_all add: feasible_minimiser_def feasible_def)
  have best: "\<forall>w'. feasible (ncols m - 1) w' \<longrightarrow>
      residual (map butlast (rows m)) w ?b \<le> residual (map butlast (rows m)) w' ?b"
    using fm by (simp add: feasible_minimiser_def)
  have "design_matrix alldata all_matrix = (msgs, Inr m0) \<longrightarrow> m = drop_missing m0 \<longrightarrow>
          length w = length (sectors (labels all_matrix)) - 1"
    using len by (auto simp: ncols_drop_missing dest: ncols_design_matrix)
  then show ?thesis using call len nn best by blast
qed

theorem estimator_minimises_witness:
  "optimized exact_fit_solver
     \<lparr>ncols = 3, rows = [[Finite 1, Finite 0, Finite 3], [Finite 0, Finite 1, Finite 4],
                        [Finite 1, Finite 1, Finite 7]]\<rparr>
     = Inr [Finite 3, Finite 4]
   \<and> residual [[Finite 1, Finite 0], [Finite 0, Finite 1], [Finite 1, Finite 1]]
        [Finite 3, Finite 4] [Finite 3, Finite 4, Finite 7]
      \<le> residual [[Finite 1, Finite 0], [Finite 0, Finite 1], [Finite 1, Finite 1]]
        [Finite 2, Finite 5] [Finite 3, Finite 4, Finite 7]"
  (is "optimized _ ?m = Inr ?w \<and> _")
proof -
  have d: "dense ?m" by (simp add: dense_def finite_float_def)
  have o: "optimized exact_fit_solver ?m = Inr ?w"
    by (simp add: optimized_def last_column_def all_but_last_column_def exact_fit_solver_def
        feasible_def nonneg_def residual_def dot_def value_of_def)
  have f: "feasible (ncols ?m - 1) [Finite 2, Finite 5]"
    by (simp add: feasible_def nonneg_def)
  have "\<forall>w'. feasible (ncols ?m - 1) w' \<longrightarrow>
          residual (map butlast (rows ?m)) ?w (map last (rows ?m))
            \<le> residual (map butlast (rows ?m)) w' (map last (rows ?m))"
    by (rule estimator_minimises [OF exact_fit_contract d o,
          THEN conjunct2, THEN conjunct2, THEN conjunct2, THEN conjunct1])
  then have "residual (map butlast (rows ?m)) ?w (map last (rows ?m))
            \<le> residual (map butlast (rows ?m)) [Finite 2, Finite 5] (map last (rows ?m))"
    using f by blast
  then show ?thesis using o by simp
qed

lemma map2_upt:
  "length b = n \<Longrightarrow> map2 g (map f [0..<n]) b = map (\<lambda>i. g (f i) (b ! i)) [0..<n]"
  by (rule nth_equalityI) simp_all

lemma dot_unit_row:
  assumes "i < n" and "length w = n"
  shows "dot (unit_row n i) w = value_of (w ! i)"
proof -
  have "dot (unit_row n i) w
      = sum_list (map (\<lambda>j. value_of (Finite (if j = i then 1 else 0)) * value_of (w ! j)) [0..<n])"
    unfolding dot_def unit_row_def using assms(2) by (simp add: map2_upt)
  also have "\<dots> = sum_list (map (\<lambda>j. if j = i then value_of (w ! j) else 0) [0..<n])"
    by (intro arg_cong [where f = sum_list] map_cong) (simp_all add: value_of_def)
  also have "\<dots> = (\<Sum>j \<in> {0..<n}. if j = i then value_of (w ! j) else 0)"
    by (simp only: interv_sum_list_conv_sum_set_nat set_upt)
  also have "\<dots> = value_of (w ! i)" using assms(1) by simp
  finally show ?thesis .
qed

lemma residual_identity:
  assumes "length w = n" and "length b = n"
  shows "residual (map (unit_row n) [0..<n]) w b
    = sum_list (map (\<lambda>i. (value_of (w ! i) - value_of (b ! i))\<^sup>2) [0..<n])"
proof -
  have "residual (map (unit_row n) [0..<n]) w b
      = sum_list (map (\<lambda>i. (dot (unit_row n i) w - value_of (b ! i))\<^sup>2) [0..<n])"
    unfolding residual_def using assms(2) by (simp add: map2_upt)
  also have "\<dots> = sum_list (map (\<lambda>i. (value_of (w ! i) - value_of (b ! i))\<^sup>2) [0..<n])"
    using assms(1) by (intro arg_cong [where f = sum_list] map_cong) (simp_all add: dot_unit_row)
  finally show ?thesis .
qed

lemma identity_split:
  "all_but_last_column (identity_with_target target)
     = \<lparr>ncols = length target, rows = map (unit_row (length target)) [0..<length target]\<rparr>
   \<and> last_column (identity_with_target target) = Inr target"
  by (simp add: all_but_last_column_def last_column_def identity_with_target_def comp_def
      map_nth)

lemma identity_finite_data:
  assumes "list_all nonneg target"
  shows "finite_data \<lparr>ncols = length target,
            rows = map (unit_row (length target)) [0..<length target]\<rparr> target"
  using assms
  by (auto simp: finite_data_def dense_def list_all_iff unit_row_def finite_float_def
      intro: nonneg_finite [unfolded finite_float_def])

lemma same_value:
  assumes "nonneg x" and "nonneg y" and "value_of x = value_of y"
  shows "x = y"
  using assms by (cases x; cases y) (simp_all add: nonneg_def value_of_def)

text \<open>
  C7. Let the solver be as the specification describes it, and let it answer the call
  with the identity as predictors and a target whose components are finite numbers that
  are not negative. Then for the matrix with the identity in its predictor columns and
  that target as its last column the estimator returns the target itself.
\<close>

theorem identity_reproduces_target:
  assumes "nnls_contract lsq_linear"
    and "list_all nonneg target"
    and "lsq_linear \<lparr>ncols = length target,
            rows = map (unit_row (length target)) [0..<length target]\<rparr> target
           (Finite 0, PosInf) = Inr w"
  shows "optimized lsq_linear (identity_with_target target) = Inr target \<and> w = target"
proof -
  let ?n = "length target"
  let ?A = "\<lparr>ncols = ?n, rows = map (unit_row ?n) [0..<?n]\<rparr>"
  have o: "optimized lsq_linear (identity_with_target target) = Inr w"
    using assms(3) identity_split [of target] by (simp add: optimized_def)
  have "finite_data ?A target" using assms(2) by (rule identity_finite_data)
  then have fm: "feasible_minimiser ?A target w"
    using assms(1,3) unfolding nnls_contract_def by blast
  have fw: "length w = ?n" "list_all nonneg w"
    using fm by (simp_all add: feasible_minimiser_def feasible_def)
  have ft: "feasible ?n target" using assms(2) by (simp add: feasible_def)
  have "residual (rows ?A) w target \<le> residual (rows ?A) target target"
    using fm ft by (simp add: feasible_minimiser_def)
  moreover have "residual (rows ?A) target target = 0"
    by (simp add: residual_identity)
  ultimately have "residual (rows ?A) w target = 0"
    using residual_nonneg [of "rows ?A" w target] by simp
  then have z: "sum_list (map (\<lambda>i. (value_of (w ! i) - value_of (target ! i))\<^sup>2) [0..<?n]) = 0"
    using fw(1) by (simp add: residual_identity)
  have "\<forall>x \<in> set (map (\<lambda>i. (value_of (w ! i) - value_of (target ! i))\<^sup>2) [0..<?n]). x = 0"
    using z by (subst (asm) sum_list_nonneg_eq_0_iff) auto
  then have eqv: "\<forall>i < ?n. value_of (w ! i) = value_of (target ! i)" by auto
  have "w = target"
  proof (rule nth_equalityI)
    show "length w = length target" by (rule fw(1))
  next
    fix i assume i: "i < length w"
    then have "nonneg (w ! i)" "nonneg (target ! i)"
      using fw assms(2) by (simp_all add: list_all_length)
    moreover have "value_of (w ! i) = value_of (target ! i)" using eqv i fw(1) by simp
    ultimately show "w ! i = target ! i" by (rule same_value)
  qed
  then show ?thesis using o by simp
qed

theorem identity_reproduces_target_witness:
  "optimized exact_fit_solver (identity_with_target [Finite 3, Finite 0, Finite (5 / 2)])
     = Inr [Finite 3, Finite 0, Finite (5 / 2)]
   \<and> rows (identity_with_target [Finite 3, Finite 0, Finite (5 / 2)])
     = [[Finite 1, Finite 0, Finite 0, Finite 3],
        [Finite 0, Finite 1, Finite 0, Finite 0],
        [Finite 0, Finite 0, Finite 1, Finite (5 / 2)]]"
  (is "optimized _ (identity_with_target ?t) = _ \<and> _")
proof -
  have n: "list_all nonneg ?t" by (simp add: nonneg_def)
  have u: "[0..<3] = [0, 1, 2]" by (simp add: upt_rec)
  have a: "exact_fit_solver \<lparr>ncols = length ?t,
            rows = map (unit_row (length ?t)) [0..<length ?t]\<rparr> ?t (Finite 0, PosInf) = Inr ?t"
    by (simp add: exact_fit_solver_def feasible_def nonneg_def residual_def dot_def
        value_of_def unit_row_def u)
  have r: "rows (identity_with_target ?t)
     = [[Finite 1, Finite 0, Finite 0, Finite 3],
        [Finite 0, Finite 1, Finite 0, Finite 0],
        [Finite 0, Finite 0, Finite 1, Finite (5 / 2)]]"
    by (simp add: identity_with_target_def unit_row_def u)
  show ?thesis
    using identity_reproduces_target [OF exact_fit_contract n a] r by simp
qed

end
